theory Spec2Isabelle
  imports Main
begin

section \<open>Data model\<close>

text \<open>
  The risk rules of \<^verbatim>\<open>principalmapper/analysis/find_risks.py\<close> read a graph of
  principals, access edges and policies. The classes \<^verbatim>\<open>Node\<close>, \<^verbatim>\<open>Edge\<close>,
  \<^verbatim>\<open>Policy\<close>, \<^verbatim>\<open>Graph\<close>, \<^verbatim>\<open>Finding\<close> and \<^verbatim>\<open>Report\<close> are imported by the
  module; the records below carry the attributes the module reads. A policy document is
  only handed on to the policy simulator, so it is kept as its JSON text.
  Two nodes are the same node when all their attributes agree (identifiers are unique
  within a graph).
\<close>

type_synonym policy_document = string

type_synonym context_vars = "(string \<times> string) list"

type_synonym timestamp = nat

record node =
  arn :: string
  is_admin :: bool
  has_mfa :: bool
  access_keys :: int
  instance_profile :: "string list option"
  trust_policy :: "policy_document option"

record edge =
  source :: node
  destination :: node
  reason :: string
  short_reason :: string

record policy =
  policy_arn :: string
  policy_name :: string
  policy_doc :: policy_document

record graph =
  nodes :: "node list"
  edges :: "edge list"
  policies :: "policy list"
  metadata :: "string \<rightharpoonup> string"

record finding =
  title :: string
  severity :: string
  impact :: string
  description :: string
  recommendation :: string

record report =
  account :: string
  date_and_time :: timestamp
  findings :: "finding list"
  report_source :: string

datatype error = KeyError | IndexError | TypeError

section \<open>Cycle search\<close>

definition get_outbound_edges :: "node \<Rightarrow> graph \<Rightarrow> edge list" where
  \<comment> \<open>Modelled from the spec: \<^verbatim>\<open>Node.get_outbound_edges\<close> is a method of the imported
     \<^verbatim>\<open>Node\<close> class; by sections 3 and 4.3 of the specification the outbound edges of
     a node are the edges of the graph whose source is that node, in the graph's order.\<close>
  "get_outbound_edges n g = filter (\<lambda>e. source e = n) (edges g)"

text \<open>
  One iteration of the \<^verbatim>\<open>while\<close> loop of \<^verbatim>\<open>_find_cycle\<close>, on its three variables:
  either the function returns, or the loop goes on with new values. \<^verbatim>\<open>pop()\<close> removes
  and yields the last element of the stack, which the loop condition has shown to exist.
\<close>

datatype step_result = Continue node "node list" "node list" | Return "node list option"

definition find_cycle_step ::
  "graph \<Rightarrow> node \<Rightarrow> node \<Rightarrow> node list \<Rightarrow> node list \<Rightarrow> step_result" where
  "find_cycle_step g origin current_root current_stack explored_nodes =
    (if length current_stack > 0 then
       (let outbound_nodes = map destination (get_outbound_edges current_root g) in
        if length outbound_nodes = 0 then
          Continue (last current_stack) (butlast current_stack) explored_nodes
        else if origin \<in> set outbound_nodes then Return (Some current_stack)
        else (let candidates = filter (\<lambda>x. x \<notin> set explored_nodes) outbound_nodes in
              if length candidates = 0 then
                Continue (last current_stack) (butlast current_stack) explored_nodes
              else Continue (hd candidates) (current_stack @ [hd candidates])
                     (explored_nodes @ [current_root])))
     else Return None)"

text \<open>The loop: iterate until the function returns.\<close>

function find_cycle_loop ::
  "graph \<Rightarrow> node \<Rightarrow> node \<Rightarrow> node list \<Rightarrow> node list \<Rightarrow> node list option" where
  "find_cycle_loop g origin current_root current_stack explored_nodes =
     (case find_cycle_step g origin current_root current_stack explored_nodes of
        Return r \<Rightarrow> r
      | Continue next_root next_stack next_explored \<Rightarrow>
          find_cycle_loop g origin next_root next_stack next_explored)"
  by pat_completeness auto

text \<open>
  The same loop cut off after \<open>n\<close> iterations: \<open>None\<close> when the function has not
  returned by then, \<open>Some r\<close> when it has returned \<open>r\<close>.
\<close>

fun find_cycle_within ::
  "nat \<Rightarrow> graph \<Rightarrow> node \<Rightarrow> node \<Rightarrow> node list \<Rightarrow> node list \<Rightarrow> node list option option" where
  "find_cycle_within 0 g origin current_root current_stack explored_nodes = None"
| "find_cycle_within (Suc n) g origin current_root current_stack explored_nodes =
     (case find_cycle_step g origin current_root current_stack explored_nodes of
        Return r \<Rightarrow> Some r
      | Continue next_root next_stack next_explored \<Rightarrow>
          find_cycle_within n g origin next_root next_stack next_explored)"

text \<open>
  The loop ends because of two quantities, compared lexicographically. The first is the
  number of edge sources not yet in \<^verbatim>\<open>explored_nodes\<close>. The second weighs the current
  root and every stack entry: 3 for an explored node that still has an unexplored
  successor, 1 for any other node.
\<close>

definition unexplored_sources :: "graph \<Rightarrow> node list \<Rightarrow> nat" where
  "unexplored_sources g explored_nodes = card (source ` set (edges g) - set explored_nodes)"

definition node_weight :: "graph \<Rightarrow> node list \<Rightarrow> node \<Rightarrow> nat" where
  "node_weight g explored_nodes x =
     (if x \<in> set explored_nodes \<and>
         filter (\<lambda>y. y \<notin> set explored_nodes) (map destination (get_outbound_edges x g)) \<noteq> []
      then 3 else 1)"

definition stack_weight :: "graph \<Rightarrow> node list \<Rightarrow> node \<Rightarrow> node list \<Rightarrow> nat" where
  "stack_weight g explored_nodes current_root current_stack =
     sum_list (map (node_weight g explored_nodes) current_stack)
       + node_weight g explored_nodes current_root"

definition find_cycle_order ::
  "((graph \<times> node \<times> node \<times> node list \<times> node list) \<times>
    (graph \<times> node \<times> node \<times> node list \<times> node list)) set" where
  "find_cycle_order =
     inv_image (less_than <*lex*> less_than)
       (\<lambda>(g, origin, current_root, current_stack, explored_nodes).
          (unexplored_sources g explored_nodes,
           stack_weight g explored_nodes current_root current_stack))"

lemma wf_find_cycle_order: "wf find_cycle_order"
  unfolding find_cycle_order_def by (rule wf_inv_image) (simp add: wf_lex_prod)

lemma stack_weight_pop:
  assumes "0 < length current_stack"
  shows "stack_weight g explored_nodes (last current_stack) (butlast current_stack)
           = sum_list (map (node_weight g explored_nodes) current_stack)"
proof -
  from assms have "current_stack = butlast current_stack @ [last current_stack]"
    by simp
  then have "sum_list (map (node_weight g explored_nodes) current_stack)
      = sum_list (map (node_weight g explored_nodes) (butlast current_stack))
          + node_weight g explored_nodes (last current_stack)"
    by (metis (no_types) map_append sum_list_append list.simps(8,9) sum_list.Cons sum_list.Nil
        add.right_neutral)
  then show ?thesis by (simp add: stack_weight_def)
qed

lemma pop_decreases:
  assumes "0 < length current_stack"
    and "filter (\<lambda>y. y \<notin> set explored_nodes)
           (map destination (get_outbound_edges current_root g)) = []"
  shows "((g, origin, last current_stack, butlast current_stack, explored_nodes),
          (g, origin, current_root, current_stack, explored_nodes)) \<in> find_cycle_order"
proof -
  have "node_weight g explored_nodes current_root = 1"
    using assms(2) by (simp add: node_weight_def)
  then have "stack_weight g explored_nodes (last current_stack) (butlast current_stack)
      < stack_weight g explored_nodes current_root current_stack"
    using stack_weight_pop [OF assms(1)] by (simp add: stack_weight_def)
  then show ?thesis by (simp add: find_cycle_order_def)
qed

lemma advance_decreases:
  assumes cand: "filter (\<lambda>y. y \<notin> set explored_nodes)
           (map destination (get_outbound_edges current_root g)) \<noteq> []"
  defines "next_root \<equiv> hd (filter (\<lambda>y. y \<notin> set explored_nodes)
           (map destination (get_outbound_edges current_root g)))"
  shows "((g, origin, next_root, current_stack @ [next_root], explored_nodes @ [current_root]),
          (g, origin, current_root, current_stack, explored_nodes)) \<in> find_cycle_order"
proof (cases "current_root \<in> set explored_nodes")
  case True
  then have same: "set (explored_nodes @ [current_root]) = set explored_nodes"
    by auto
  have "next_root \<in> set (filter (\<lambda>y. y \<notin> set explored_nodes)
           (map destination (get_outbound_edges current_root g)))"
    unfolding next_root_def using cand by (rule hd_in_set)
  then have fresh: "next_root \<notin> set explored_nodes"
    by simp
  have w: "node_weight g (explored_nodes @ [current_root]) = node_weight g explored_nodes"
    unfolding node_weight_def same ..
  have "node_weight g explored_nodes next_root = 1"
    using fresh by (simp add: node_weight_def)
  moreover have "node_weight g explored_nodes current_root = 3"
    using True cand by (simp add: node_weight_def)
  ultimately have "stack_weight g (explored_nodes @ [current_root]) next_root
        (current_stack @ [next_root])
      < stack_weight g explored_nodes current_root current_stack"
    unfolding w stack_weight_def by simp
  moreover have "unexplored_sources g (explored_nodes @ [current_root])
      = unexplored_sources g explored_nodes"
    unfolding unexplored_sources_def same ..
  ultimately show ?thesis by (simp add: find_cycle_order_def)
next
  case False
  from cand have "get_outbound_edges current_root g \<noteq> []"
    by auto
  then obtain e where "e \<in> set (edges g)" and "source e = current_root"
    unfolding get_outbound_edges_def by (metis (mono_tags, lifting) filter_False mem_Collect_eq set_filter)
  then have mem: "current_root \<in> source ` set (edges g) - set explored_nodes"
    using False by auto
  have fin: "finite (source ` set (edges g) - set explored_nodes)"
    by simp
  have "source ` set (edges g) - set (explored_nodes @ [current_root])
      = (source ` set (edges g) - set explored_nodes) - {current_root}"
    by auto
  then have "unexplored_sources g (explored_nodes @ [current_root])
      < unexplored_sources g explored_nodes"
    unfolding unexplored_sources_def using card_Diff1_less [OF fin mem] by simp
  then show ?thesis by (simp add: find_cycle_order_def)
qed

lemma find_cycle_step_unfold:
  "find_cycle_step g origin current_root current_stack explored_nodes =
     (if current_stack = [] then Return None
      else if map destination (get_outbound_edges current_root g) = [] then
        Continue (last current_stack) (butlast current_stack) explored_nodes
      else if origin \<in> set (map destination (get_outbound_edges current_root g)) then
        Return (Some current_stack)
      else if filter (\<lambda>x. x \<notin> set explored_nodes)
                (map destination (get_outbound_edges current_root g)) = [] then
        Continue (last current_stack) (butlast current_stack) explored_nodes
      else Continue
             (hd (filter (\<lambda>x. x \<notin> set explored_nodes)
                    (map destination (get_outbound_edges current_root g))))
             (current_stack
                @ [hd (filter (\<lambda>x. x \<notin> set explored_nodes)
                         (map destination (get_outbound_edges current_root g)))])
             (explored_nodes @ [current_root]))"
  unfolding find_cycle_step_def by (simp add: Let_def del: length_filter_map)

lemma find_cycle_step_decreases:
  assumes "find_cycle_step g origin current_root current_stack explored_nodes
             = Continue next_root next_stack next_explored"
  shows "((g, origin, next_root, next_stack, next_explored),
          (g, origin, current_root, current_stack, explored_nodes)) \<in> find_cycle_order"
proof -
  let ?out = "map destination (get_outbound_edges current_root g)"
  let ?cand = "filter (\<lambda>x. x \<notin> set explored_nodes) ?out"
  note eq = assms [unfolded find_cycle_step_unfold]
  from eq have ne: "0 < length current_stack"
    by (auto split: if_splits)
  show ?thesis
  proof (cases "?cand = []")
    case True
    with eq ne have "next_root = last current_stack" "next_stack = butlast current_stack"
      "next_explored = explored_nodes"
      by (auto split: if_splits)
    with pop_decreases [OF ne True] show ?thesis by simp
  next
    case False
    then have "?out \<noteq> []" by auto
    with eq ne False have "next_root = hd ?cand" "next_stack = current_stack @ [hd ?cand]"
      "next_explored = explored_nodes @ [current_root]"
      by (auto split: if_splits)
    with advance_decreases [OF False] show ?thesis by simp
  qed
qed

termination find_cycle_loop
proof (relation find_cycle_order)
  show "wf find_cycle_order" by (rule wf_find_cycle_order)
qed (rule find_cycle_step_decreases)

declare find_cycle_loop.simps [simp del]

definition find_cycle :: "graph \<Rightarrow> node \<Rightarrow> node list option" where
  "find_cycle g origin = find_cycle_loop g origin origin [origin] []"

section \<open>Collaborators of the module\<close>

datatype resource_policy_eval_result = SERVICE_MATCH | ACCOUNT_MATCH | EXPLICIT_DENY | NEUTRAL
  \<comment> \<open>Modelled from the spec: the enumeration \<^verbatim>\<open>ResourcePolicyEvalResult\<close> is imported
     from the policy simulator; section 4.1 of the specification gives its four values.\<close>

definition member_SERVICE_MATCH :: "resource_policy_eval_result \<Rightarrow> resource_policy_eval_result" where
  \<comment> \<open>The attribute access \<^verbatim>\<open>rpa_result.SERVICE_MATCH\<close>: looking a member's name up on
     a member of an enumeration finds the class attribute, whatever the member is.\<close>
  "member_SERVICE_MATCH rpa_result = SERVICE_MATCH"

definition truthy :: "resource_policy_eval_result \<Rightarrow> bool" where
  \<comment> \<open>The truth value of an enumeration member in a condition: the class defines neither
     \<^verbatim>\<open>__bool__\<close> nor \<^verbatim>\<open>__len__\<close>, so every member counts as true.\<close>
  "truthy r = True"

text \<open>
  The functions the module imports from the rest of the package (the privilege-escalation
  search, the policy simulator, the ARN helpers, two methods of \<^verbatim>\<open>Node\<close> and \<^verbatim>\<open>Edge\<close>),
  the clock and the package version are parameters of the model. They are taken to be
  functions of their arguments that return normally.
\<close>

record env =
  can_privesc :: "graph \<Rightarrow> node \<Rightarrow> bool \<times> edge list"
  local_check_authorization :: "node \<Rightarrow> string \<Rightarrow> string \<Rightarrow> context_vars \<Rightarrow> bool"
  local_check_authorization_handling_mfa ::
    "node \<Rightarrow> string \<Rightarrow> string \<Rightarrow> context_vars \<Rightarrow> bool \<times> bool"
  resource_policy_authorization ::
    "string \<Rightarrow> string \<Rightarrow> policy_document option \<Rightarrow> string \<Rightarrow> string \<Rightarrow> context_vars
      \<Rightarrow> resource_policy_eval_result"
  get_account_id :: "string \<Rightarrow> string"
  get_service :: "string \<Rightarrow> string"
  searchable_name :: "node \<Rightarrow> string"
  describe_edge :: "edge \<Rightarrow> string"
  now_utc :: timestamp
  version :: string

section \<open>String helpers\<close>

fun startswith :: "string \<Rightarrow> string \<Rightarrow> bool" where
  "startswith s [] = True"
| "startswith [] (p # ps) = False"
| "startswith (c # cs) (p # ps) = (c = p \<and> startswith cs ps)"

fun contains :: "string \<Rightarrow> string \<Rightarrow> bool" where
  "contains [] sub = (sub = [])"
| "contains (c # cs) sub = (startswith (c # cs) sub \<or> contains cs sub)"

fun str_join :: "string \<Rightarrow> string list \<Rightarrow> string" where
  "str_join sep [] = []"
| "str_join sep [x] = x"
| "str_join sep (x # y # ys) = x @ sep @ str_join sep (y # ys)"

definition bullet_list :: "env \<Rightarrow> node list \<Rightarrow> string" where
  \<comment> \<open>\<^verbatim>\<open>for node in affected: description_body += '* {}\n'.format(node.searchable_name())\<close>\<close>
  "bullet_list env affected =
     concat (map (\<lambda>node. ''* '' @ searchable_name env node @ ''\<newline>'') affected)"

section \<open>The texts of the findings\<close>

definition privesc_description_preamble :: string where
  "privesc_description_preamble =
     ''In AWS, IAM Principals such as IAM Users or IAM Roles have their permissions '' @
     ''defined using IAM Policies. These policies describe different actions, resources, '' @
     ''and conditions where the principal can make a given API call to a service.\<newline>\<newline>Administrative '' @
     ''principals can call any action with any resource, as in the AdministratorAccess '' @
     ''AWS-managed policy. However, some permissions may allow another non-administrative '' @
     ''principal to gain access to an administrative principal. This represents '' @
     ''a privilege escalation risk.\<newline>\<newline>The following principals could escalate privileges:\<newline>\<newline>''"

definition privesc_impact :: string where
  "privesc_impact =
     ''A lower-privilege IAM User or Role is able to gain administrative privileges. '' @
     ''This could lead to the lower-privilege principal being used to compromise '' @
     ''the account and its resources.''"

definition privesc_recommendation :: string where
  "privesc_recommendation =
     ''Review the IAM Policies that are applicable to the affected IAM User(s) '' @
     ''or Role(s). Either reduce the permissions of the administrative principal(s), '' @
     ''or reduce the permissions of the principal(s) that can access the administrative '' @
     ''principals.''"

definition mfa_actions_description_preamble :: string where
  "mfa_actions_description_preamble =
     ''In AWS, IAM Users can be configured to use an MFA device. When an IAM User '' @
     ''has MFA enabled, they are required to provide the second factor of authentication '' @
     ''when they log in to the AWS Console. However, unless there is a specific '' @
     ''IAM policy attached to the user, they will not need to provide a second '' @
     ''factor of authentication when making API calls.\<newline>\<newline>The following administrative '' @
     ''IAM Users have at least one set of access keys, and can call sensitive actions '' @
     ''to alter permissions or add users without using a second factor of authentication:\<newline>\<newline>''"

definition mfa_actions_impact :: string where
  "mfa_actions_impact =
     ''An adminstrative IAM User is able to call sensitive actions, such as creating '' @
     ''more principals or modifying permissions, without using MFA.''"

definition mfa_actions_recommendation :: string where
  "mfa_actions_recommendation =
     ''Implement and attach an IAM Policy to the noted user(s) that rejects requests '' @
     ''when MFA is not used.''"

definition instance_profile_description_preamble :: string where
  "instance_profile_description_preamble =
     ''In AWS, EC2 instances can be given an instance profile. These instance profiles '' @
     ''are associated with an IAM Role, and grants access to the permissions of '' @
     ''the IAM Role. Because EC2 instances are at a higher risk of exposure and '' @
     ''compromise, both to external attackers and authorized users in the AWS account, '' @
     ''they should not have access to administrative privileges. The following '' @
     ''IAM Roles have administrative permissions and are associated with an instance '' @
     ''profile:\<newline>\<newline>''"

definition instance_profile_impact :: string where
  "instance_profile_impact =
     ''If an instance with the noted instance profile(s) is compromised, then the '' @
     ''AWS account as a whole is at risk of compromise.''"

definition instance_profile_recommendation :: string where
  "instance_profile_recommendation =
     ''Reduce the scope of permissions attached to the noted instance profile(s).''"

definition function_description_preamble :: string where
  "function_description_preamble =
     ''In AWS, Lambda functions can be assigned an IAM Role to use during execution. '' @
     ''These IAM Roles give the function access to call the AWS API with the permissions '' @
     ''of the IAM Role, depending on the policies attached to it. If the Lambda '' @
     ''function can be compromised, and the attacker can alter the code it executes, '' @
     ''the attacker could make AWS API calls with the IAM Role's permissions. The '' @
     ''following IAM Roles have administrative privileges, and can be passed to '' @
     ''Lambda functions:\<newline>\<newline>''"

definition function_impact :: string where
  "function_impact =
     ''If an attacker can inject code or commands into the function, or if a lower-privileged '' @
     ''principal can alter the function, the AWS account as a whole could be compromised.''"

definition function_recommendation :: string where
  "function_recommendation =
     ''Reduce the scope of permissions attached to the noted IAM Role(s).''"

definition stack_description_preamble :: string where
  "stack_description_preamble =
     ''In AWS, CloudFormation stacks can be given an IAM Role. When a stack has '' @
     ''an IAM Role, it can use that IAM Role to make AWS API calls to create the '' @
     ''resources defined in the template for that stack. If the IAM Role has administrator '' @
     ''access to the account, and an attacker is able to make the right CloudFormation '' @
     ''API calls, they would be able to use the IAM Role to escalate privileges '' @
     ''and compromise the account as a whole. The following IAM Roles can be used '' @
     ''in CloudFormation and have administrative privileges:\<newline>\<newline>''"

definition stack_impact :: string where
  "stack_impact =
     ''If an attacker has the right permissions in the AWS Account, they can grant '' @
     ''themselves adminstrative access to the account to compromise the account.''"

definition stack_recommendation :: string where
  "stack_recommendation =
     ''Reduce the scope of permissions attached to the noted IAM Role(s).''"

definition os_lpe_description_preamble :: string where
  "os_lpe_description_preamble =
     ''In AWS EC2, instances can be assigned instance profiles. An instance profile '' @
     ''is tied to a single IAM Role. The instance profile can be used to access '' @
     ''the AWS API with the permissions of the IAM Role. If the IAM Role has permission '' @
     ''to call certain SSM actions such as `ssm:SendCommand` or `ssm:StartSession`, '' @
     ''the instance profile can be used to invoke commands on other instances or '' @
     ''itself.\<newline>\<newline>Because the SSM Agent runs with the highest permissions on their '' @
     ''hosts (root or SYSTEM), this can be a way for attackers to pivot and compromise '' @
     ''other instances, or escalate privileges on the local machine. The following '' @
     ''IAM Roles are attached to at least one instance profile and have permissions '' @
     ''with the aforementioned risk:\<newline>\<newline>''"

definition os_lpe_impact :: string where
  "os_lpe_impact =
     ''If an attacker gains access to an instance with the unsafe permissions, '' @
     ''they could escalate privileges on its current host or compromise other hosts.''"

definition os_lpe_recommendation :: string where
  "os_lpe_recommendation =
     ''Reduce the scope of permissions attached to the noted IAM Role(s).''"

definition circular_access_description_preamble :: string where
  "circular_access_description_preamble =
     ''In AWS, an IAM Principal with a specific set of permissions can gain access '' @
     ''to another principal, such as when an IAM User has permission to call `sts:AssumeRole` '' @
     ''for an IAM Role. Principal Mapper tracks these connections as Nodes (a.k.a. '' @
     ''Vertices) and Edges in a Graph.\<newline>\<newline>However, there may be instances where nodes '' @
     ''can access each other in a circular manner. This presents a risk in the '' @
     ''account if an attacker gains access to one of the principals in a cycle. '' @
     ''An attacker can abuse that access to pivot between each of the principals '' @
     ''in a cycle. This can be used to evade detection or persist access to an '' @
     ''AWS account. The following cycles were identified:\<newline>\<newline>''"

definition circular_access_impact :: string where
  "circular_access_impact =
     ''If an attacker gains access to one of the identified principals, they can '' @
     ''potentially evade detections or persist access.''"

definition circular_access_recommendation :: string where
  "circular_access_recommendation =
     ''Break the cycle of access by altering/removing permissions assigned to one '' @
     ''of the noted principals.''"

definition admin_users_without_mfa_description_preamble :: string where
  "admin_users_without_mfa_description_preamble =
     ''In AWS, an IAM User can be assigned a device for Multi-Factor Authentication '' @
     ''(MFA). When an IAM User is assigned an MFA device, they are required to '' @
     ''provide an extra factor of authentication when logging in to the AWS Console. '' @
     ''It is also possible to create IAM Policies that impose extra restrictions '' @
     ''on the permissions of IAM Users depending on whether or not they have authenticated '' @
     ''with MFA when using the AWS API. Any IAM User with administrative privileges '' @
     ''should be configured to have an MFA device. \<newline>\<newline>The following IAM Users with '' @
     ''administrative privileges do not have an MFA device configured:\<newline>\<newline>''"

definition admin_users_without_mfa_impact :: string where
  "admin_users_without_mfa_impact =
     ''If an attacker gains access to any of the noted sensitive IAM Users, there '' @
     ''is no secondary layer of protection in place to prevent the AWS from being '' @
     ''compromised.''"

definition admin_users_without_mfa_recommendation :: string where
  "admin_users_without_mfa_recommendation =
     ''Assign an MFA device to each of the noted IAM Users.''"

definition confused_deputies_impact :: string where
  "confused_deputies_impact =
     ''Depending on the affected resources and services, an attacker may be able '' @
     ''to execute read or write operations on the resources from another AWS account.''"

definition confused_deputies_description_prefix :: string where
  "confused_deputies_description_prefix =
     ''In AWS, certain services will create and use resources in the customer's '' @
     ''own AWS account. This may be controlled using a resource policy that grants '' @
     ''access to the service that created the resource in the customer's AWS account. '' @
     ''However, some services require customers to use the `${aws:SourceAccount}` '' @
     ''condition context key to control access to the account resource from the '' @
     ''service. In other words, to prevent the service from accessing the resource '' @
     ''on the behalf of another customer, the resource needs a resource policy '' @
     ''that allow-lists the true '' @
     [CHR 0x22] @
     ''source'' @
     [CHR 0x22] @
     '' of a request.\<newline>\<newline>The following AWS services and resources could allow an '' @
     ''external account to potentially gain read/write access to the resources:\<newline>\<newline>''"

definition confused_deputies_recommendation :: string where
  "confused_deputies_recommendation =
     ''Update the resource policy for all affected resources, and ensure that all '' @
     ''statements granting access to AWS services check against the `${aws:SourceAccount}` '' @
     ''condition context key when appropriate.''"

section \<open>The risk rules\<close>

subsection \<open>Privilege escalation\<close>

fun privesc_node_path_list :: "env \<Rightarrow> graph \<Rightarrow> node list \<Rightarrow> (node \<times> edge list) list" where
  "privesc_node_path_list env g [] = []"
| "privesc_node_path_list env g (node # rest) =
     (if is_admin node then privesc_node_path_list env g rest
      else (case can_privesc env g node of
              (privesc_res, edge_list) \<Rightarrow>
                if privesc_res then (node, edge_list) # privesc_node_path_list env g rest
                else privesc_node_path_list env g rest))"

text \<open>\<^verbatim>\<open>edge_list[-1]\<close> raises \<^verbatim>\<open>IndexError\<close> on an empty list.\<close>

fun privesc_description_body :: "env \<Rightarrow> (node \<times> edge list) list \<Rightarrow> error + string" where
  "privesc_description_body env [] = Inr []"
| "privesc_description_body env ((node, edge_list) # rest) =
     (if edge_list = [] then Inl IndexError
      else (let end_of_list = destination (last edge_list);
                entry = ''* '' @ searchable_name env node
                  @ '' can escalate privileges by accessing the administrative principal ''
                  @ searchable_name env end_of_list @ '':\<newline>''
                  @ concat (map (\<lambda>edge. ''   * '' @ describe_edge env edge @ ''\<newline>'') edge_list)
                  @ ''\<newline>''
            in case privesc_description_body env rest of
                 Inl e \<Rightarrow> Inl e
               | Inr body \<Rightarrow> Inr (entry @ body)))"

definition gen_privesc_findings :: "env \<Rightarrow> graph \<Rightarrow> error + finding list" where
  "gen_privesc_findings env g =
     (let node_path_list = privesc_node_path_list env g (nodes g) in
      if length node_path_list > 0 then
        (case privesc_description_body env node_path_list of
           Inl e \<Rightarrow> Inl e
         | Inr description_body \<Rightarrow>
             Inr [\<lparr>title = ''IAM ''
                     @ (if length node_path_list > 1 then ''Principals'' else ''Principal'')
                     @ '' Can Escalate Privileges'',
                   severity = ''High'',
                   impact = privesc_impact,
                   description = privesc_description_preamble @ description_body,
                   recommendation = privesc_recommendation\<rparr>])
      else Inr [])"

subsection \<open>Sensitive actions without MFA\<close>

fun can_call_without_mfa :: "env \<Rightarrow> node \<Rightarrow> string list \<Rightarrow> bool" where
  "can_call_without_mfa env node [] = False"
| "can_call_without_mfa env node (action # actions) =
     (case local_check_authorization_handling_mfa env node action ''*'' [] of
        (auth, needmfa) \<Rightarrow>
          if auth \<and> \<not> needmfa then True else can_call_without_mfa env node actions)"

definition mfa_sensitive_actions :: "string list" where
  "mfa_sensitive_actions =
     [''iam:CreateUser'', ''iam:CreateRole'', ''iam:CreateGroup'', ''iam:PutUserPolicy'',
      ''iam:PutRolePolicy'', ''iam:PutGroupPolicy'', ''iam:AttachUserPolicy'',
      ''iam:AttachRolePolicy'', ''iam:AttachGroupPolicy'', ''sts:AssumeRole'']"

definition mfa_actions_affected_users :: "env \<Rightarrow> node list \<Rightarrow> node list" where
  "mfa_actions_affected_users env ns =
     filter (\<lambda>node. contains (arn node) '':user/'' \<and> is_admin node \<and> access_keys node > 0
                \<and> can_call_without_mfa env node mfa_sensitive_actions) ns"

definition gen_mfa_actions_findings :: "env \<Rightarrow> graph \<Rightarrow> finding list" where
  "gen_mfa_actions_findings env g =
     (let affected_users = mfa_actions_affected_users env (nodes g) in
      if length affected_users > 0 then
        [\<lparr>title = ''Administrative IAM ''
             @ (if length affected_users > 1 then ''Users'' else ''User'')
             @ '' Can Call Sensitive Actions Without MFA'',
           severity = ''Medium'',
           impact = mfa_actions_impact,
           description = mfa_actions_description_preamble @ bullet_list env affected_users,
           recommendation = mfa_actions_recommendation\<rparr>]
      else [])"

subsection \<open>Over-privileged instance profiles, functions and stacks\<close>

text \<open>
  \<^verbatim>\<open>len(node.instance_profile)\<close> raises \<^verbatim>\<open>TypeError\<close> when the attribute is
  \<^verbatim>\<open>None\<close>; it is evaluated only for administrative roles.
\<close>

fun instance_profile_affected_roles :: "node list \<Rightarrow> error + node list" where
  "instance_profile_affected_roles [] = Inr []"
| "instance_profile_affected_roles (node # rest) =
     (if contains (arn node) '':role/'' \<and> is_admin node then
        (case instance_profile node of
           None \<Rightarrow> Inl TypeError
         | Some ips \<Rightarrow>
             (case instance_profile_affected_roles rest of
                Inl e \<Rightarrow> Inl e
              | Inr affected \<Rightarrow> Inr (if length ips > 0 then node # affected else affected)))
      else instance_profile_affected_roles rest)"

definition gen_overprivileged_instance_profile_findings ::
  "env \<Rightarrow> graph \<Rightarrow> error + finding list" where
  "gen_overprivileged_instance_profile_findings env g =
     (case instance_profile_affected_roles (nodes g) of
        Inl e \<Rightarrow> Inl e
      | Inr affected_roles \<Rightarrow>
          if length affected_roles > 0 then
            Inr [\<lparr>title = ''Instance ''
                    @ (if length affected_roles > 1 then ''Profiles Have'' else ''Profile Has'')
                    @ '' Administrator Privileges'',
                  severity = ''High'',
                  impact = instance_profile_impact,
                  description = instance_profile_description_preamble
                    @ bullet_list env affected_roles,
                  recommendation = instance_profile_recommendation\<rparr>]
          else Inr [])"

definition service_assumable_admin_roles :: "env \<Rightarrow> string \<Rightarrow> node list \<Rightarrow> node list" where
  "service_assumable_admin_roles env service ns =
     filter (\<lambda>node. contains (arn node) '':role/'' \<and> is_admin node
                \<and> resource_policy_authorization env service (get_account_id env (arn node))
                     (trust_policy node) ''sts:AssumeRole'' (arn node) [] = SERVICE_MATCH) ns"

definition gen_overprivileged_function_findings :: "env \<Rightarrow> graph \<Rightarrow> finding list" where
  "gen_overprivileged_function_findings env g =
     (let affected_roles = service_assumable_admin_roles env ''lambda.amazonaws.com'' (nodes g) in
      if length affected_roles > 0 then
        [\<lparr>title = (if length affected_roles > 1
                   then ''IAM Roles Available to Lambda Functions Have Administrative Privileges''
                   else ''IAM Role Available to Lambda Functions Has Administrative Privileges''),
           severity = ''Medium'',
           impact = function_impact,
           description = function_description_preamble @ bullet_list env affected_roles,
           recommendation = function_recommendation\<rparr>]
      else [])"

definition gen_overprivileged_stack_findings :: "env \<Rightarrow> graph \<Rightarrow> finding list" where
  "gen_overprivileged_stack_findings env g =
     (let affected_roles =
            service_assumable_admin_roles env ''cloudformation.amazonaws.com'' (nodes g) in
      if length affected_roles > 0 then
        [\<lparr>title = (if length affected_roles > 1
                   then ''IAM Roles Available to CloudFormation Stacks Have Administrative Privileges''
                   else ''IAM Role Available to CloudFormation Stacks Has Administrative Privileges''),
           severity = ''Low'',
           impact = stack_impact,
           description = stack_description_preamble @ bullet_list env affected_roles,
           recommendation = stack_recommendation\<rparr>]
      else [])"

subsection \<open>Unsafe SSM permissions\<close>

definition os_lpe_affected :: "env \<Rightarrow> node \<Rightarrow> bool" where
  "os_lpe_affected env node =
     (if contains (arn node) '':role/''
         \<and> (case instance_profile node of None \<Rightarrow> False | Some ips \<Rightarrow> length ips > 0)
      then
        (if local_check_authorization env node ''ssmmessages:*'' ''*'' [] then
           (if local_check_authorization env node ''ssm:SendCommand'' ''*'' [] then True
            else if local_check_authorization env node ''ssm:StartSession'' ''*'' [] then True
            else False)
         else False)
      else False)"

definition gen_os_lpe_finding :: "env \<Rightarrow> graph \<Rightarrow> finding list" where
  "gen_os_lpe_finding env g =
     (let affected_roles = filter (os_lpe_affected env) (nodes g) in
      if length affected_roles > 0 then
        [\<lparr>title = (if length affected_roles > 1 then ''IAM Roles With Unsafe SSM Permissions''
                   else ''IAM Role With Unsafe SSM Permissions''),
           severity = ''Medium'',
           impact = os_lpe_impact,
           description = os_lpe_description_preamble @ bullet_list env affected_roles,
           recommendation = os_lpe_recommendation\<rparr>]
      else [])"

subsection \<open>Circular access\<close>

fun circular_access_cycles :: "graph \<Rightarrow> node list \<Rightarrow> node list list" where
  "circular_access_cycles g [] = []"
| "circular_access_cycles g (node # rest) =
     (if is_admin node then circular_access_cycles g rest
      else (case find_cycle g node of
              None \<Rightarrow> circular_access_cycles g rest
            | Some cycle_result \<Rightarrow> cycle_result # circular_access_cycles g rest))"

text \<open>\<^verbatim>\<open>cycle[0]\<close> raises \<^verbatim>\<open>IndexError\<close> on an empty list.\<close>

fun circular_access_description_body :: "env \<Rightarrow> node list list \<Rightarrow> error + string" where
  "circular_access_description_body env [] = Inr []"
| "circular_access_description_body env (cycle # rest) =
     (case cycle of
        [] \<Rightarrow> Inl IndexError
      | first # _ \<Rightarrow>
          (case circular_access_description_body env rest of
             Inl e \<Rightarrow> Inl e
           | Inr body \<Rightarrow>
               Inr (''* ''
                 @ str_join '' -> '' (map (searchable_name env) cycle @ [searchable_name env first])
                 @ ''\<newline>'' @ body)))"

definition gen_circular_access_finding :: "env \<Rightarrow> graph \<Rightarrow> error + finding list" where
  "gen_circular_access_finding env g =
     (let cycles = circular_access_cycles g (nodes g) in
      if length cycles > 0 then
        (case circular_access_description_body env cycles of
           Inl e \<Rightarrow> Inl e
         | Inr description_body \<Rightarrow>
             Inr [\<lparr>title = ''IAM Principals with Circular Access'',
                   severity = ''Low'',
                   impact = circular_access_impact,
                   description = circular_access_description_preamble @ description_body,
                   recommendation = circular_access_recommendation\<rparr>])
      else Inr [])"

subsection \<open>Administrative users without an MFA device\<close>

definition gen_admin_users_without_mfa_finding :: "env \<Rightarrow> graph \<Rightarrow> finding list" where
  "gen_admin_users_without_mfa_finding env g =
     (let affected_nodes =
            filter (\<lambda>node. startswith (searchable_name env node) ''user/'' \<and> is_admin node
                       \<and> \<not> has_mfa node) (nodes g) in
      if length affected_nodes > 0 then
        (let user_list = map (\<lambda>node. ''* '' @ searchable_name env node) affected_nodes;
             description_body = str_join ''\<newline>'' user_list
         in [\<lparr>title = ''IAM Users With Administrative Permissions But No MFA Device'',
               severity = ''Medium'',
               impact = admin_users_without_mfa_impact,
               description = admin_users_without_mfa_description_preamble @ description_body,
               recommendation = admin_users_without_mfa_recommendation\<rparr>])
      else [])"

subsection \<open>Resources with a potential confused deputy\<close>

text \<open>
  The nested dictionary \<^verbatim>\<open>resource_service_action_map\<close>, in insertion order.
  \<^verbatim>\<open>graph.metadata['account_id']\<close> is evaluated for every call of the simulator and
  raises \<^verbatim>\<open>KeyError\<close> when the key is missing.
\<close>

definition resource_service_action_map :: "(string \<times> (string \<times> string list) list) list" where
  "resource_service_action_map =
     [(''s3'', [(''serverlessrepo.amazonaws.com'', [''s3:GetObject''])])]"

fun confused_deputy_available_actions ::
  "env \<Rightarrow> graph \<Rightarrow> policy \<Rightarrow> string \<Rightarrow> string list \<Rightarrow> error + string list" where
  "confused_deputy_available_actions env g pol service [] = Inr []"
| "confused_deputy_available_actions env g pol service (action # rest) =
     (case metadata g ''account_id'' of
        None \<Rightarrow> Inl KeyError
      | Some account_id \<Rightarrow>
          (let rpa_result = resource_policy_authorization env service account_id
                 (Some (policy_doc pol)) action (policy_arn pol)
                 [(''aws:SourceAccount'', ''000000000000'')]
           in case confused_deputy_available_actions env g pol service rest of
                Inl e \<Rightarrow> Inl e
              | Inr available_actions \<Rightarrow>
                  Inr (if truthy (member_SERVICE_MATCH rpa_result)
                       then action # available_actions else available_actions)))"

fun confused_deputy_services ::
  "env \<Rightarrow> graph \<Rightarrow> policy \<Rightarrow> (string \<times> string list) list
    \<Rightarrow> error + (string \<times> string \<times> string) list" where
  "confused_deputy_services env g pol [] = Inr []"
| "confused_deputy_services env g pol ((service, action_list) # rest) =
     (case confused_deputy_available_actions env g pol service action_list of
        Inl e \<Rightarrow> Inl e
      | Inr available_actions \<Rightarrow>
          (case confused_deputy_services env g pol rest of
             Inl e \<Rightarrow> Inl e
           | Inr affected \<Rightarrow>
               Inr (if length available_actions > 0
                    then (policy_arn pol, service, str_join '' | '' available_actions) # affected
                    else affected)))"

fun confused_deputy_policies ::
  "env \<Rightarrow> graph \<Rightarrow> string \<Rightarrow> (string \<times> string list) list \<Rightarrow> policy list
    \<Rightarrow> error + (string \<times> string \<times> string) list" where
  "confused_deputy_policies env g resource_type services [] = Inr []"
| "confused_deputy_policies env g resource_type services (pol # rest) =
     (if get_service env (policy_arn pol) = resource_type then
        (case confused_deputy_services env g pol services of
           Inl e \<Rightarrow> Inl e
         | Inr here \<Rightarrow>
             (case confused_deputy_policies env g resource_type services rest of
                Inl e \<Rightarrow> Inl e
              | Inr affected \<Rightarrow> Inr (here @ affected)))
      else confused_deputy_policies env g resource_type services rest)"

fun confused_deputy_affected_policies ::
  "env \<Rightarrow> graph \<Rightarrow> (string \<times> (string \<times> string list) list) list
    \<Rightarrow> error + (string \<times> string \<times> string) list" where
  "confused_deputy_affected_policies env g [] = Inr []"
| "confused_deputy_affected_policies env g ((resource_type, services) # rest) =
     (case confused_deputy_policies env g resource_type services (policies g) of
        Inl e \<Rightarrow> Inl e
      | Inr here \<Rightarrow>
          (case confused_deputy_affected_policies env g rest of
             Inl e \<Rightarrow> Inl e
           | Inr affected \<Rightarrow> Inr (here @ affected)))"

definition gen_resources_with_potential_confused_deputies ::
  "env \<Rightarrow> graph \<Rightarrow> error + finding list" where
  "gen_resources_with_potential_confused_deputies env g =
     (case confused_deputy_affected_policies env g resource_service_action_map of
        Inl e \<Rightarrow> Inl e
      | Inr affected_policies \<Rightarrow>
          if length affected_policies > 0 then
            (let desc_list_str = str_join ''\<newline>''
                   (map (\<lambda>(x, y, z). ''* With service '' @ y @ '', the resource '' @ x
                           @ '' for the action(s): '' @ z) affected_policies)
             in Inr [\<lparr>title = ''Resources With A Potential Confused-Deputy Risk'',
                       severity = ''Medium'',
                       impact = confused_deputies_impact,
                       description = confused_deputies_description_prefix @ desc_list_str,
                       recommendation = confused_deputies_recommendation\<rparr>])
          else Inr [])"

section \<open>Assembling the findings and the report\<close>

text \<open>
  \<^verbatim>\<open>gen_all_findings\<close> calls the rules one after the other. To speak about which rules
  have been invoked, the model threads a trace through the calls: the names of the rules
  invoked so far, in order. A rule that raises ends the run with its error; the trace
  keeps the call.
\<close>

type_synonym trace = "string list"

definition extend_with ::
  "string \<Rightarrow> error + finding list \<Rightarrow> finding list \<Rightarrow> trace \<Rightarrow> (error + finding list) \<times> trace" where
  \<comment> \<open>\<^verbatim>\<open>result.extend(rule(graph))\<close>\<close>
  "extend_with rule_name outcome result tr =
     (case outcome of
        Inl e \<Rightarrow> (Inl e, tr @ [rule_name])
      | Inr fs \<Rightarrow> (Inr (result @ fs), tr @ [rule_name]))"

definition and_then ::
  "(error + 'a) \<times> trace \<Rightarrow> ('a \<Rightarrow> trace \<Rightarrow> (error + 'b) \<times> trace) \<Rightarrow> (error + 'b) \<times> trace" where
  "and_then m f = (case m of (Inl e, tr) \<Rightarrow> (Inl e, tr) | (Inr x, tr) \<Rightarrow> f x tr)"

definition gen_all_findings :: "env \<Rightarrow> graph \<Rightarrow> trace \<Rightarrow> (error + finding list) \<times> trace" where
  "gen_all_findings env g tr0 =
     and_then (extend_with ''gen_privesc_findings'' (gen_privesc_findings env g) [] tr0)
       (\<lambda>result tr.
     and_then (extend_with ''gen_admin_users_without_mfa_finding''
                 (Inr (gen_admin_users_without_mfa_finding env g)) result tr)
       (\<lambda>result tr.
     and_then (extend_with ''gen_mfa_actions_findings''
                 (Inr (gen_mfa_actions_findings env g)) result tr)
       (\<lambda>result tr.
     and_then (extend_with ''gen_overprivileged_function_findings''
                 (Inr (gen_overprivileged_function_findings env g)) result tr)
       (\<lambda>result tr.
     and_then (extend_with ''gen_overprivileged_instance_profile_findings''
                 (gen_overprivileged_instance_profile_findings env g) result tr)
       (\<lambda>result tr.
     and_then (extend_with ''gen_overprivileged_stack_findings''
                 (Inr (gen_overprivileged_stack_findings env g)) result tr)
       (\<lambda>result tr.
     and_then (extend_with ''gen_os_lpe_finding'' (Inr (gen_os_lpe_finding env g)) result tr)
       (\<lambda>result tr.
     extend_with ''gen_circular_access_finding'' (gen_circular_access_finding env g)
       result tr)))))))"

definition report_source_text :: "env \<Rightarrow> string" where
  "report_source_text env =
     ''Findings identified using Principal Mapper ('' @ version env
       @ '') from NCC Group: https://github.com/nccgroup/PMapper''"

definition gen_report :: "env \<Rightarrow> graph \<Rightarrow> trace \<Rightarrow> (error + report) \<times> trace" where
  "gen_report env g tr0 =
     and_then (gen_all_findings env g tr0)
       (\<lambda>fs tr.
          case metadata g ''account_id'' of
            None \<Rightarrow> (Inl KeyError, tr)
          | Some account_id \<Rightarrow>
              (Inr \<lparr>account = account_id, date_and_time = now_utc env, findings = fs,
                     report_source = report_source_text env\<rparr>, tr))"

section \<open>The rules over collaborators that keep state\<close>

text \<open>
  The collaborators are Python callables: the policy simulator and the escalation search
  may keep caches, and \<^verbatim>\<open>Node.get_outbound_edges\<close> may store what it has computed on
  the node. To speak about two runs of \<^verbatim>\<open>gen_all_findings\<close>, the second of which finds
  whatever the first has left behind, this section embeds the rules a second time, with
  every call of a collaborator made explicit: a collaborator takes the state \<open>'w\<close> of
  the collaborators and returns its answer together with the new state. The state may
  influence the answer. The order of the calls is the order in which the source makes
  them. Attributes of nodes and edges are read directly, as before.
\<close>

record 'w io_env =
  io_can_privesc :: "graph \<Rightarrow> node \<Rightarrow> 'w \<Rightarrow> (bool \<times> edge list) \<times> 'w"
  io_local_check_authorization ::
    "node \<Rightarrow> string \<Rightarrow> string \<Rightarrow> context_vars \<Rightarrow> 'w \<Rightarrow> bool \<times> 'w"
  io_local_check_authorization_handling_mfa ::
    "node \<Rightarrow> string \<Rightarrow> string \<Rightarrow> context_vars \<Rightarrow> 'w \<Rightarrow> (bool \<times> bool) \<times> 'w"
  io_resource_policy_authorization ::
    "string \<Rightarrow> string \<Rightarrow> policy_document option \<Rightarrow> string \<Rightarrow> string \<Rightarrow> context_vars
      \<Rightarrow> 'w \<Rightarrow> resource_policy_eval_result \<times> 'w"
  io_get_account_id :: "string \<Rightarrow> 'w \<Rightarrow> string \<times> 'w"
  io_searchable_name :: "node \<Rightarrow> 'w \<Rightarrow> string \<times> 'w"
  io_describe_edge :: "edge \<Rightarrow> 'w \<Rightarrow> string \<times> 'w"
  io_get_outbound_edges :: "node \<Rightarrow> graph \<Rightarrow> 'w \<Rightarrow> edge list \<times> 'w"

text \<open>
  A computation over the state either does not return (\<open>None\<close>), or returns a value or
  raises an error, leaving a new state.
\<close>

type_synonym ('a, 'w) run = "'w \<Rightarrow> ((error + 'a) \<times> 'w) option"

definition ret :: "'a \<Rightarrow> ('a, 'w) run" where
  "ret x w = Some (Inr x, w)"

definition raise :: "error \<Rightarrow> ('a, 'w) run" where
  "raise e w = Some (Inl e, w)"

definition call :: "('w \<Rightarrow> 'a \<times> 'w) \<Rightarrow> ('a, 'w) run" where
  "call c w = (case c w of (x, w') \<Rightarrow> Some (Inr x, w'))"

definition bnd :: "('a, 'w) run \<Rightarrow> ('a \<Rightarrow> ('b, 'w) run) \<Rightarrow> ('b, 'w) run" where
  "bnd m f w =
     (case m w of
        None \<Rightarrow> None
      | Some (Inl e, w') \<Rightarrow> Some (Inl e, w')
      | Some (Inr x, w') \<Rightarrow> f x w')"

text \<open>
  The loop of \<^verbatim>\<open>_find_cycle\<close>, calling \<^verbatim>\<open>get_outbound_edges\<close> once per iteration. Whether
  it returns depends on what the collaborator answers, so it is a partial function.
\<close>

partial_function (option) find_cycle_loop_io ::
  "'w io_env \<Rightarrow> graph \<Rightarrow> node \<Rightarrow> node \<Rightarrow> node list \<Rightarrow> node list \<Rightarrow> 'w
    \<Rightarrow> (node list option \<times> 'w) option" where
  "find_cycle_loop_io io g origin current_root current_stack explored_nodes w =
    (if length current_stack > 0 then
       (case io_get_outbound_edges io current_root g w of
          (outbound_edges, w') \<Rightarrow>
            (let outbound_nodes = map destination outbound_edges in
             if length outbound_nodes = 0 then
               find_cycle_loop_io io g origin (last current_stack) (butlast current_stack)
                 explored_nodes w'
             else if origin \<in> set outbound_nodes then Some (Some current_stack, w')
             else (let candidates = filter (\<lambda>x. x \<notin> set explored_nodes) outbound_nodes in
                   if length candidates = 0 then
                     find_cycle_loop_io io g origin (last current_stack) (butlast current_stack)
                       explored_nodes w'
                   else find_cycle_loop_io io g origin (hd candidates)
                          (current_stack @ [hd candidates]) (explored_nodes @ [current_root]) w')))
     else Some (None, w))"

definition find_cycle_io :: "'w io_env \<Rightarrow> graph \<Rightarrow> node \<Rightarrow> (node list option, 'w) run" where
  "find_cycle_io io g origin w =
     (case find_cycle_loop_io io g origin origin [origin] [] w of
        None \<Rightarrow> None
      | Some (r, w') \<Rightarrow> Some (Inr r, w'))"

declare find_cycle_loop_io.simps [code]

fun bullet_list_io :: "'w io_env \<Rightarrow> node list \<Rightarrow> (string, 'w) run" where
  "bullet_list_io io [] = ret []"
| "bullet_list_io io (node # rest) =
     bnd (call (io_searchable_name io node)) (\<lambda>name.
     bnd (bullet_list_io io rest) (\<lambda>body.
     ret (''* '' @ name @ ''\<newline>'' @ body)))"

fun privesc_node_path_list_io ::
  "'w io_env \<Rightarrow> graph \<Rightarrow> node list \<Rightarrow> ((node \<times> edge list) list, 'w) run" where
  "privesc_node_path_list_io io g [] = ret []"
| "privesc_node_path_list_io io g (node # rest) =
     (if is_admin node then privesc_node_path_list_io io g rest
      else bnd (call (io_can_privesc io g node)) (\<lambda>(privesc_res, edge_list).
           bnd (privesc_node_path_list_io io g rest) (\<lambda>found.
           ret (if privesc_res then (node, edge_list) # found else found))))"

fun describe_edges_io :: "'w io_env \<Rightarrow> edge list \<Rightarrow> (string, 'w) run" where
  "describe_edges_io io [] = ret []"
| "describe_edges_io io (edge # rest) =
     bnd (call (io_describe_edge io edge)) (\<lambda>text.
     bnd (describe_edges_io io rest) (\<lambda>body.
     ret (''   * '' @ text @ ''\<newline>'' @ body)))"

fun privesc_description_body_io ::
  "'w io_env \<Rightarrow> (node \<times> edge list) list \<Rightarrow> (string, 'w) run" where
  "privesc_description_body_io io [] = ret []"
| "privesc_description_body_io io ((node, edge_list) # rest) =
     (if edge_list = [] then raise IndexError
      else bnd (call (io_searchable_name io node)) (\<lambda>name.
           bnd (call (io_searchable_name io (destination (last edge_list)))) (\<lambda>end_name.
           bnd (describe_edges_io io edge_list) (\<lambda>edge_lines.
           bnd (privesc_description_body_io io rest) (\<lambda>body.
           ret (''* '' @ name
                  @ '' can escalate privileges by accessing the administrative principal ''
                  @ end_name @ '':\<newline>'' @ edge_lines @ ''\<newline>'' @ body))))))"

definition gen_privesc_findings_io :: "'w io_env \<Rightarrow> graph \<Rightarrow> (finding list, 'w) run" where
  "gen_privesc_findings_io io g =
     bnd (privesc_node_path_list_io io g (nodes g)) (\<lambda>node_path_list.
     if length node_path_list > 0 then
       bnd (privesc_description_body_io io node_path_list) (\<lambda>description_body.
       ret [\<lparr>title = ''IAM ''
                @ (if length node_path_list > 1 then ''Principals'' else ''Principal'')
                @ '' Can Escalate Privileges'',
              severity = ''High'',
              impact = privesc_impact,
              description = privesc_description_preamble @ description_body,
              recommendation = privesc_recommendation\<rparr>])
     else ret [])"

fun admin_users_without_mfa_affected_io :: "'w io_env \<Rightarrow> node list \<Rightarrow> (node list, 'w) run" where
  "admin_users_without_mfa_affected_io io [] = ret []"
| "admin_users_without_mfa_affected_io io (node # rest) =
     bnd (call (io_searchable_name io node)) (\<lambda>name.
     bnd (admin_users_without_mfa_affected_io io rest) (\<lambda>affected.
     ret (if startswith name ''user/'' \<and> is_admin node \<and> \<not> has_mfa node
          then node # affected else affected)))"

fun user_list_io :: "'w io_env \<Rightarrow> node list \<Rightarrow> (string list, 'w) run" where
  "user_list_io io [] = ret []"
| "user_list_io io (node # rest) =
     bnd (call (io_searchable_name io node)) (\<lambda>name.
     bnd (user_list_io io rest) (\<lambda>lines.
     ret ((''* '' @ name) # lines)))"

definition gen_admin_users_without_mfa_finding_io ::
  "'w io_env \<Rightarrow> graph \<Rightarrow> (finding list, 'w) run" where
  "gen_admin_users_without_mfa_finding_io io g =
     bnd (admin_users_without_mfa_affected_io io (nodes g)) (\<lambda>affected_nodes.
     if length affected_nodes > 0 then
       bnd (user_list_io io affected_nodes) (\<lambda>user_list.
       ret [\<lparr>title = ''IAM Users With Administrative Permissions But No MFA Device'',
              severity = ''Medium'',
              impact = admin_users_without_mfa_impact,
              description = admin_users_without_mfa_description_preamble
                @ str_join ''\<newline>'' user_list,
              recommendation = admin_users_without_mfa_recommendation\<rparr>])
     else ret [])"

fun can_call_without_mfa_io :: "'w io_env \<Rightarrow> node \<Rightarrow> string list \<Rightarrow> (bool, 'w) run" where
  "can_call_without_mfa_io io node [] = ret False"
| "can_call_without_mfa_io io node (action # actions) =
     bnd (call (io_local_check_authorization_handling_mfa io node action ''*'' []))
       (\<lambda>(auth, needmfa).
          if auth \<and> \<not> needmfa then ret True else can_call_without_mfa_io io node actions)"

fun mfa_actions_affected_users_io :: "'w io_env \<Rightarrow> node list \<Rightarrow> (node list, 'w) run" where
  "mfa_actions_affected_users_io io [] = ret []"
| "mfa_actions_affected_users_io io (node # rest) =
     (if contains (arn node) '':user/'' \<and> is_admin node \<and> access_keys node > 0 then
        bnd (can_call_without_mfa_io io node mfa_sensitive_actions) (\<lambda>can_call.
        bnd (mfa_actions_affected_users_io io rest) (\<lambda>affected.
        ret (if can_call then node # affected else affected)))
      else mfa_actions_affected_users_io io rest)"

definition gen_mfa_actions_findings_io :: "'w io_env \<Rightarrow> graph \<Rightarrow> (finding list, 'w) run" where
  "gen_mfa_actions_findings_io io g =
     bnd (mfa_actions_affected_users_io io (nodes g)) (\<lambda>affected_users.
     if length affected_users > 0 then
       bnd (bullet_list_io io affected_users) (\<lambda>description_body.
       ret [\<lparr>title = ''Administrative IAM ''
                @ (if length affected_users > 1 then ''Users'' else ''User'')
                @ '' Can Call Sensitive Actions Without MFA'',
              severity = ''Medium'',
              impact = mfa_actions_impact,
              description = mfa_actions_description_preamble @ description_body,
              recommendation = mfa_actions_recommendation\<rparr>])
     else ret [])"

definition gen_overprivileged_instance_profile_findings_io ::
  "'w io_env \<Rightarrow> graph \<Rightarrow> (finding list, 'w) run" where
  "gen_overprivileged_instance_profile_findings_io io g =
     (case instance_profile_affected_roles (nodes g) of
        Inl e \<Rightarrow> raise e
      | Inr affected_roles \<Rightarrow>
          if length affected_roles > 0 then
            bnd (bullet_list_io io affected_roles) (\<lambda>description_body.
            ret [\<lparr>title = ''Instance ''
                     @ (if length affected_roles > 1 then ''Profiles Have'' else ''Profile Has'')
                     @ '' Administrator Privileges'',
                   severity = ''High'',
                   impact = instance_profile_impact,
                   description = instance_profile_description_preamble @ description_body,
                   recommendation = instance_profile_recommendation\<rparr>])
          else ret [])"

fun service_assumable_admin_roles_io ::
  "'w io_env \<Rightarrow> string \<Rightarrow> node list \<Rightarrow> (node list, 'w) run" where
  "service_assumable_admin_roles_io io service [] = ret []"
| "service_assumable_admin_roles_io io service (node # rest) =
     (if contains (arn node) '':role/'' \<and> is_admin node then
        bnd (call (io_get_account_id io (arn node))) (\<lambda>account_id.
        bnd (call (io_resource_policy_authorization io service account_id (trust_policy node)
                     ''sts:AssumeRole'' (arn node) [])) (\<lambda>rpa_result.
        bnd (service_assumable_admin_roles_io io service rest) (\<lambda>affected.
        ret (if rpa_result = SERVICE_MATCH then node # affected else affected))))
      else service_assumable_admin_roles_io io service rest)"

definition gen_overprivileged_function_findings_io ::
  "'w io_env \<Rightarrow> graph \<Rightarrow> (finding list, 'w) run" where
  "gen_overprivileged_function_findings_io io g =
     bnd (service_assumable_admin_roles_io io ''lambda.amazonaws.com'' (nodes g))
       (\<lambda>affected_roles.
     if length affected_roles > 0 then
       bnd (bullet_list_io io affected_roles) (\<lambda>description_body.
       ret [\<lparr>title = (if length affected_roles > 1
                  then ''IAM Roles Available to Lambda Functions Have Administrative Privileges''
                  else ''IAM Role Available to Lambda Functions Has Administrative Privileges''),
              severity = ''Medium'',
              impact = function_impact,
              description = function_description_preamble @ description_body,
              recommendation = function_recommendation\<rparr>])
     else ret [])"

definition gen_overprivileged_stack_findings_io ::
  "'w io_env \<Rightarrow> graph \<Rightarrow> (finding list, 'w) run" where
  "gen_overprivileged_stack_findings_io io g =
     bnd (service_assumable_admin_roles_io io ''cloudformation.amazonaws.com'' (nodes g))
       (\<lambda>affected_roles.
     if length affected_roles > 0 then
       bnd (bullet_list_io io affected_roles) (\<lambda>description_body.
       ret [\<lparr>title = (if length affected_roles > 1
                  then ''IAM Roles Available to CloudFormation Stacks Have Administrative Privileges''
                  else ''IAM Role Available to CloudFormation Stacks Has Administrative Privileges''),
              severity = ''Low'',
              impact = stack_impact,
              description = stack_description_preamble @ description_body,
              recommendation = stack_recommendation\<rparr>])
     else ret [])"

definition os_lpe_affected_io :: "'w io_env \<Rightarrow> node \<Rightarrow> (bool, 'w) run" where
  "os_lpe_affected_io io node =
     (if contains (arn node) '':role/''
         \<and> (case instance_profile node of None \<Rightarrow> False | Some ips \<Rightarrow> length ips > 0)
      then
        bnd (call (io_local_check_authorization io node ''ssmmessages:*'' ''*'' []))
          (\<lambda>messages.
        if messages then
          bnd (call (io_local_check_authorization io node ''ssm:SendCommand'' ''*'' []))
            (\<lambda>send_command.
          if send_command then ret True
          else bnd (call (io_local_check_authorization io node ''ssm:StartSession'' ''*'' []))
                 (\<lambda>start_session. if start_session then ret True else ret False))
        else ret False)
      else ret False)"

fun os_lpe_affected_roles_io :: "'w io_env \<Rightarrow> node list \<Rightarrow> (node list, 'w) run" where
  "os_lpe_affected_roles_io io [] = ret []"
| "os_lpe_affected_roles_io io (node # rest) =
     bnd (os_lpe_affected_io io node) (\<lambda>flagged.
     bnd (os_lpe_affected_roles_io io rest) (\<lambda>affected.
     ret (if flagged then node # affected else affected)))"

definition gen_os_lpe_finding_io :: "'w io_env \<Rightarrow> graph \<Rightarrow> (finding list, 'w) run" where
  "gen_os_lpe_finding_io io g =
     bnd (os_lpe_affected_roles_io io (nodes g)) (\<lambda>affected_roles.
     if length affected_roles > 0 then
       bnd (bullet_list_io io affected_roles) (\<lambda>description_body.
       ret [\<lparr>title = (if length affected_roles > 1 then ''IAM Roles With Unsafe SSM Permissions''
                  else ''IAM Role With Unsafe SSM Permissions''),
              severity = ''Medium'',
              impact = os_lpe_impact,
              description = os_lpe_description_preamble @ description_body,
              recommendation = os_lpe_recommendation\<rparr>])
     else ret [])"

fun circular_access_cycles_io ::
  "'w io_env \<Rightarrow> graph \<Rightarrow> node list \<Rightarrow> (node list list, 'w) run" where
  "circular_access_cycles_io io g [] = ret []"
| "circular_access_cycles_io io g (node # rest) =
     (if is_admin node then circular_access_cycles_io io g rest
      else bnd (find_cycle_io io g node) (\<lambda>cycle_result.
           bnd (circular_access_cycles_io io g rest) (\<lambda>cycles.
           ret (case cycle_result of None \<Rightarrow> cycles | Some c \<Rightarrow> c # cycles))))"

fun searchable_names_io :: "'w io_env \<Rightarrow> node list \<Rightarrow> (string list, 'w) run" where
  "searchable_names_io io [] = ret []"
| "searchable_names_io io (x # rest) =
     bnd (call (io_searchable_name io x)) (\<lambda>name.
     bnd (searchable_names_io io rest) (\<lambda>names.
     ret (name # names)))"

fun circular_access_description_body_io ::
  "'w io_env \<Rightarrow> node list list \<Rightarrow> (string, 'w) run" where
  "circular_access_description_body_io io [] = ret []"
| "circular_access_description_body_io io (cycle # rest) =
     bnd (searchable_names_io io cycle) (\<lambda>names.
     case cycle of
       [] \<Rightarrow> raise IndexError
     | first # _ \<Rightarrow>
         bnd (call (io_searchable_name io first)) (\<lambda>first_name.
         bnd (circular_access_description_body_io io rest) (\<lambda>body.
         ret (''* '' @ str_join '' -> '' (names @ [first_name]) @ ''\<newline>'' @ body))))"

definition gen_circular_access_finding_io :: "'w io_env \<Rightarrow> graph \<Rightarrow> (finding list, 'w) run" where
  "gen_circular_access_finding_io io g =
     bnd (circular_access_cycles_io io g (nodes g)) (\<lambda>cycles.
     if length cycles > 0 then
       bnd (circular_access_description_body_io io cycles) (\<lambda>description_body.
       ret [\<lparr>title = ''IAM Principals with Circular Access'',
              severity = ''Low'',
              impact = circular_access_impact,
              description = circular_access_description_preamble @ description_body,
              recommendation = circular_access_recommendation\<rparr>])
     else ret [])"

definition extend_io :: "finding list \<Rightarrow> (finding list, 'w) run \<Rightarrow> (finding list, 'w) run" where
  "extend_io result rule = bnd rule (\<lambda>fs. ret (result @ fs))"

definition gen_all_findings_io :: "'w io_env \<Rightarrow> graph \<Rightarrow> (finding list, 'w) run" where
  "gen_all_findings_io io g =
     bnd (extend_io [] (gen_privesc_findings_io io g)) (\<lambda>result.
     bnd (extend_io result (gen_admin_users_without_mfa_finding_io io g)) (\<lambda>result.
     bnd (extend_io result (gen_mfa_actions_findings_io io g)) (\<lambda>result.
     bnd (extend_io result (gen_overprivileged_function_findings_io io g)) (\<lambda>result.
     bnd (extend_io result (gen_overprivileged_instance_profile_findings_io io g)) (\<lambda>result.
     bnd (extend_io result (gen_overprivileged_stack_findings_io io g)) (\<lambda>result.
     bnd (extend_io result (gen_os_lpe_finding_io io g)) (\<lambda>result.
     extend_io result (gen_circular_access_finding_io io g))))))))"

text \<open>
  A collaborator call \<open>c\<close> answers \<open>a\<close> on the states satisfying \<open>I\<close> when, from every such
  state, it returns \<open>a\<close> and leaves a state satisfying \<open>I\<close>. The collaborators \<open>io\<close> are
  consistent with the functions \<open>env\<close> on the graph \<open>g\<close> when each of their calls
  answers what the corresponding function of \<open>env\<close> gives, and
  \<^verbatim>\<open>get_outbound_edges\<close> answers the outbound edges of the node in \<open>g\<close>. A computation
  yields \<open>r\<close> when from every state satisfying \<open>I\<close> it returns with the outcome \<open>r\<close> and
  leaves a state satisfying \<open>I\<close>.
\<close>

definition answers :: "('w \<Rightarrow> bool) \<Rightarrow> ('w \<Rightarrow> 'a \<times> 'w) \<Rightarrow> 'a \<Rightarrow> bool" where
  "answers I c a = (\<forall>w. I w \<longrightarrow> fst (c w) = a \<and> I (snd (c w)))"

definition consistent :: "'w io_env \<Rightarrow> env \<Rightarrow> graph \<Rightarrow> ('w \<Rightarrow> bool) \<Rightarrow> bool" where
  "consistent io env g I =
     ((\<forall>n. answers I (io_can_privesc io g n) (can_privesc env g n))
      \<and> (\<forall>n action resource ctx.
            answers I (io_local_check_authorization io n action resource ctx)
              (local_check_authorization env n action resource ctx))
      \<and> (\<forall>n action resource ctx.
            answers I (io_local_check_authorization_handling_mfa io n action resource ctx)
              (local_check_authorization_handling_mfa env n action resource ctx))
      \<and> (\<forall>service acct doc action resource ctx.
            answers I (io_resource_policy_authorization io service acct doc action resource ctx)
              (resource_policy_authorization env service acct doc action resource ctx))
      \<and> (\<forall>a. answers I (io_get_account_id io a) (get_account_id env a))
      \<and> (\<forall>n. answers I (io_searchable_name io n) (searchable_name env n))
      \<and> (\<forall>e. answers I (io_describe_edge io e) (describe_edge env e))
      \<and> (\<forall>n. answers I (io_get_outbound_edges io n g) (get_outbound_edges n g)))"

definition yields :: "('w \<Rightarrow> bool) \<Rightarrow> ('a, 'w) run \<Rightarrow> error + 'a \<Rightarrow> bool" where
  "yields I m r = (\<forall>w. I w \<longrightarrow> (\<exists>w'. m w = Some (r, w') \<and> I w'))"

section \<open>Sample collaborators and graphs\<close>

text \<open>
  Concrete inputs for the closed theorems below. The sample collaborators read the
  colon-separated fields of an ARN and answer every authorization query in the negative;
  each scenario overrides the answers it needs.
\<close>

fun split_colon :: "string \<Rightarrow> string list" where
  "split_colon [] = [[]]"
| "split_colon (c # cs) =
     (if c = CHR '':'' then [] # split_colon cs
      else (case split_colon cs of [] \<Rightarrow> [[c]] | f # fs \<Rightarrow> (c # f) # fs))"

definition arn_field :: "nat \<Rightarrow> string \<Rightarrow> string" where
  "arn_field i a = (let fs = split_colon a in if i < length fs then fs ! i else [])"

definition sample_env :: env where
  "sample_env =
     \<lparr>can_privesc = (\<lambda>g n. (False, [])),
      local_check_authorization = (\<lambda>n action resource ctx. False),
      local_check_authorization_handling_mfa = (\<lambda>n action resource ctx. (False, False)),
      resource_policy_authorization = (\<lambda>principal acct doc action resource ctx. NEUTRAL),
      get_account_id = arn_field 4,
      get_service = arn_field 2,
      searchable_name = (\<lambda>n. arn_field 5 (arn n)),
      describe_edge = (\<lambda>e. arn_field 5 (arn (source e)) @ '' '' @ reason e @ '' ''
                            @ arn_field 5 (arn (destination e))),
      now_utc = 0,
      version = ''1.1.5''\<rparr>"

definition make_principal :: "string \<Rightarrow> bool \<Rightarrow> node" where
  "make_principal a adm =
     \<lparr>arn = a, is_admin = adm, has_mfa = True, access_keys = 0,
      instance_profile = (if contains a '':role/'' then Some [] else None),
      trust_policy = None\<rparr>"

definition access :: "node \<Rightarrow> node \<Rightarrow> edge" where
  "access s d =
     \<lparr>source = s, destination = d, reason = ''can call sts:AssumeRole to access'',
      short_reason = ''AssumeRole''\<rparr>"

definition role_A :: node where "role_A = make_principal ''arn:aws:iam::000000000000:role/A'' False"
definition role_B :: node where "role_B = make_principal ''arn:aws:iam::000000000000:role/B'' False"
definition role_C :: node where "role_C = make_principal ''arn:aws:iam::000000000000:role/C'' False"
definition role_D :: node where "role_D = make_principal ''arn:aws:iam::000000000000:role/D'' False"
definition role_E :: node where "role_E = make_principal ''arn:aws:iam::000000000000:role/E'' False"

definition branching_graph :: graph where
  \<comment> \<open>A -> B, B -> C, B -> D, C -> E, D -> A: the only cycle is A -> B -> D -> A.\<close>
  "branching_graph =
     \<lparr>nodes = [role_A, role_B, role_C, role_D, role_E],
      edges = [access role_A role_B, access role_B role_C, access role_B role_D,
               access role_C role_E, access role_D role_A],
      policies = [],
      metadata = [''account_id'' \<mapsto> ''000000000000'']\<rparr>"

definition user_alice :: node where
  "user_alice = make_principal ''arn:aws:iam::000000000000:user/Alice'' False"

definition role_admin :: node where
  "role_admin = make_principal ''arn:aws:iam::000000000000:role/Admin'' True"

definition role_deploy :: node where
  "role_deploy = make_principal ''arn:aws:iam::000000000000:role/Deploy'' False"

definition mixed_graph :: graph where
  \<comment> \<open>Alice and Deploy can reach each other; Alice can reach Admin; Admin can reach Alice.\<close>
  "mixed_graph =
     \<lparr>nodes = [user_alice, role_admin, role_deploy],
      edges = [access user_alice role_deploy, access role_deploy user_alice,
               access user_alice role_admin, access role_admin user_alice],
      policies = [],
      metadata = [''account_id'' \<mapsto> ''000000000000'']\<rparr>"

definition escalation_env :: env where
  \<comment> \<open>The escalation search finds the edge to Admin from Alice, and nothing from Deploy.\<close>
  "escalation_env =
     sample_env\<lparr>can_privesc :=
       (\<lambda>g n. if n = user_alice then (True, [access user_alice role_admin]) else (False, []))\<rparr>"

definition eager_can_privesc :: "graph \<Rightarrow> node \<Rightarrow> bool \<times> edge list" where
  \<comment> \<open>Agrees with the search of \<open>escalation_env\<close> except on the administrative role.\<close>
  "eager_can_privesc g n =
     (if n = user_alice then (True, [access user_alice role_admin])
      else if n = role_admin then (True, [access role_admin user_alice])
      else (False, []))"

definition unnamed_graph :: graph where
  \<comment> \<open>One non-administrative user, no edges, and metadata without an account identifier.\<close>
  "unnamed_graph = \<lparr>nodes = [user_alice], edges = [], policies = [], metadata = Map.empty\<rparr>"

definition bucket_policy :: policy where
  \<comment> \<open>A bucket policy that lets the serverless repository read objects only when
     \<^verbatim>\<open>aws:SourceAccount\<close> is the owning account 111111111111.\<close>
  "bucket_policy =
     \<lparr>policy_arn = ''arn:aws:s3:::packages'',
      policy_name = ''packages'',
      policy_doc = ''{'' @ [CHR 0x22] @ ''Statement'' @ [CHR 0x22] @ '': [{''
        @ [CHR 0x22] @ ''Effect'' @ [CHR 0x22] @ '': '' @ [CHR 0x22] @ ''Allow'' @ [CHR 0x22]
        @ '', '' @ [CHR 0x22] @ ''Principal'' @ [CHR 0x22] @ '': {'' @ [CHR 0x22] @ ''Service''
        @ [CHR 0x22] @ '': '' @ [CHR 0x22] @ ''serverlessrepo.amazonaws.com'' @ [CHR 0x22]
        @ ''}, '' @ [CHR 0x22] @ ''Action'' @ [CHR 0x22] @ '': '' @ [CHR 0x22]
        @ ''s3:GetObject'' @ [CHR 0x22] @ '', '' @ [CHR 0x22] @ ''Resource'' @ [CHR 0x22]
        @ '': '' @ [CHR 0x22] @ ''arn:aws:s3:::packages/*'' @ [CHR 0x22] @ '', ''
        @ [CHR 0x22] @ ''Condition'' @ [CHR 0x22] @ '': {'' @ [CHR 0x22] @ ''StringEquals''
        @ [CHR 0x22] @ '': {'' @ [CHR 0x22] @ ''aws:SourceAccount'' @ [CHR 0x22] @ '': ''
        @ [CHR 0x22] @ ''111111111111'' @ [CHR 0x22] @ ''}}}]}''\<rparr>"

definition bucket_graph :: graph where
  "bucket_graph =
     \<lparr>nodes = [user_alice], edges = [], policies = [bucket_policy],
      metadata = [''account_id'' \<mapsto> ''111111111111'']\<rparr>"

definition role_web :: node where
  \<comment> \<open>A non-administrative role attached to one instance profile.\<close>
  "role_web =
     \<lparr>arn = ''arn:aws:iam::000000000000:role/Web'', is_admin = False, has_mfa = False,
      access_keys = 0, instance_profile = Some [''arn:aws:iam::000000000000:instance-profile/Web''],
      trust_policy = None\<rparr>"

definition web_graph :: graph where
  "web_graph =
     \<lparr>nodes = [role_web], edges = [], policies = [],
      metadata = [''account_id'' \<mapsto> ''000000000000'']\<rparr>"

definition ssm_env :: env where
  \<comment> \<open>The policies of Web allow the SSM messaging actions and \<^verbatim>\<open>ssm:SendCommand\<close>, nothing else.\<close>
  "ssm_env =
     sample_env\<lparr>local_check_authorization :=
       (\<lambda>n action resource ctx.
          n = role_web \<and> (action = ''ssmmessages:*'' \<or> action = ''ssm:SendCommand''))\<rparr>"

definition user_bob :: node where
  "user_bob =
     \<lparr>arn = ''arn:aws:iam::000000000000:user/Bob'', is_admin = True, has_mfa = True,
      access_keys = 1, instance_profile = None, trust_policy = None\<rparr>"

definition bob_graph :: graph where
  "bob_graph =
     \<lparr>nodes = [user_alice, user_bob], edges = [], policies = [],
      metadata = [''account_id'' \<mapsto> ''000000000000'']\<rparr>"

definition bob_env :: env where
  \<comment> \<open>Bob is allowed every action and no statement asks for MFA.\<close>
  "bob_env =
     sample_env\<lparr>local_check_authorization_handling_mfa :=
       (\<lambda>n action resource ctx. (n = user_bob, False))\<rparr>"

text \<open>
  Collaborators that answer as the functions of \<open>env\<close> do, except that
  \<^verbatim>\<open>get_outbound_edges\<close> keeps a cache: it returns the cached edges of a node when there
  are some, and otherwise computes the outbound edges and stores them. A cache is valid
  for a graph when every entry holds the outbound edges of its node in that graph.
\<close>

type_synonym edge_cache = "(node \<times> edge list) list"

definition caching_io :: "env \<Rightarrow> edge_cache io_env" where
  "caching_io env =
     \<lparr>io_can_privesc = (\<lambda>g n w. (can_privesc env g n, w)),
      io_local_check_authorization =
        (\<lambda>n action resource ctx w. (local_check_authorization env n action resource ctx, w)),
      io_local_check_authorization_handling_mfa =
        (\<lambda>n action resource ctx w.
           (local_check_authorization_handling_mfa env n action resource ctx, w)),
      io_resource_policy_authorization =
        (\<lambda>service acct doc action resource ctx w.
           (resource_policy_authorization env service acct doc action resource ctx, w)),
      io_get_account_id = (\<lambda>a w. (get_account_id env a, w)),
      io_searchable_name = (\<lambda>n w. (searchable_name env n, w)),
      io_describe_edge = (\<lambda>e w. (describe_edge env e, w)),
      io_get_outbound_edges =
        (\<lambda>n g w. case map_of w n of
                    Some cached \<Rightarrow> (cached, w)
                  | None \<Rightarrow> (get_outbound_edges n g, (n, get_outbound_edges n g) # w))\<rparr>"

definition cache_valid :: "graph \<Rightarrow> edge_cache \<Rightarrow> bool" where
  "cache_valid g w = list_all (\<lambda>(n, cached). cached = get_outbound_edges n g) w"

section \<open>Properties of the cycle search\<close>

lemma find_cycle_loop_unfold:
  "find_cycle_loop g origin current_root current_stack explored_nodes =
     (if current_stack = [] then None
      else if map destination (get_outbound_edges current_root g) = [] then
        find_cycle_loop g origin (last current_stack) (butlast current_stack) explored_nodes
      else if origin \<in> set (map destination (get_outbound_edges current_root g)) then
        Some current_stack
      else if filter (\<lambda>x. x \<notin> set explored_nodes)
                (map destination (get_outbound_edges current_root g)) = [] then
        find_cycle_loop g origin (last current_stack) (butlast current_stack) explored_nodes
      else find_cycle_loop g origin
             (hd (filter (\<lambda>x. x \<notin> set explored_nodes)
                    (map destination (get_outbound_edges current_root g))))
             (current_stack
                @ [hd (filter (\<lambda>x. x \<notin> set explored_nodes)
                         (map destination (get_outbound_edges current_root g)))])
             (explored_nodes @ [current_root]))"
  by (subst find_cycle_loop.simps) (simp add: find_cycle_step_unfold)

lemma find_cycle_loop_starts_at_origin:
  assumes "find_cycle_loop g origin current_root current_stack explored_nodes = Some c"
    and "current_stack \<noteq> [] \<longrightarrow> hd current_stack = origin"
  shows "c \<noteq> [] \<and> hd c = origin"
  using assms
proof (induction g origin current_root current_stack explored_nodes rule: find_cycle_loop.induct)
  case (1 g origin current_root current_stack explored_nodes)
  show ?case
  proof (cases "find_cycle_step g origin current_root current_stack explored_nodes")
    case (Return r)
    with "1.prems"(1) have r: "r = Some c"
      by (subst (asm) find_cycle_loop.simps) simp
    from Return [unfolded find_cycle_step_unfold r]
    have "current_stack \<noteq> []" and "c = current_stack"
      by (auto split: if_splits)
    with "1.prems"(2) show ?thesis by simp
  next
    case (Continue next_root next_stack next_explored)
    with "1.prems"(1) have loop: "find_cycle_loop g origin next_root next_stack next_explored = Some c"
      by (subst (asm) find_cycle_loop.simps) simp
    from Continue [unfolded find_cycle_step_unfold]
    have ne: "current_stack \<noteq> []"
      and "next_stack = butlast current_stack \<or> (\<exists>z. next_stack = current_stack @ [z])"
      by (auto split: if_splits)
    with "1.prems"(2) have "next_stack \<noteq> [] \<longrightarrow> hd next_stack = origin"
      by (cases current_stack) auto
    from "1.IH" [OF Continue loop this] show ?thesis .
  qed
qed

lemma find_cycle_starts_at_origin:
  "find_cycle g origin = Some c \<Longrightarrow> c \<noteq> [] \<and> hd c = origin"
  unfolding find_cycle_def by (erule find_cycle_loop_starts_at_origin) simp

lemma find_cycle_within_loop:
  "\<exists>n. find_cycle_within n g origin current_root current_stack explored_nodes
         = Some (find_cycle_loop g origin current_root current_stack explored_nodes)"
proof (induction g origin current_root current_stack explored_nodes rule: find_cycle_loop.induct)
  case (1 g origin current_root current_stack explored_nodes)
  show ?case
  proof (cases "find_cycle_step g origin current_root current_stack explored_nodes")
    case (Return r)
    then have "find_cycle_within (Suc 0) g origin current_root current_stack explored_nodes
        = Some (find_cycle_loop g origin current_root current_stack explored_nodes)"
      by (subst find_cycle_loop.simps) simp
    then show ?thesis ..
  next
    case (Continue next_root next_stack next_explored)
    from "1.IH" [OF Continue] obtain n where
      "find_cycle_within n g origin next_root next_stack next_explored
         = Some (find_cycle_loop g origin next_root next_stack next_explored)" ..
    with Continue have "find_cycle_within (Suc n) g origin current_root current_stack explored_nodes
        = Some (find_cycle_loop g origin current_root current_stack explored_nodes)"
      by (subst find_cycle_loop.simps) simp
    then show ?thesis ..
  qed
qed

lemmas branching_graph_defs =
  branching_graph_def role_A_def role_B_def role_C_def role_D_def role_E_def
  make_principal_def access_def

text \<open>
  Claim C5. For every graph and every origin node, \<^verbatim>\<open>_find_cycle\<close> terminates: some
  number of iterations of the loop is enough for the function to return, and what it
  returns then is the value of \<open>find_cycle\<close>. This holds for every list of edges, a
  fully connected graph included.
\<close>

theorem find_cycle_terminates:
  "\<exists>n. find_cycle_within n g origin origin [origin] [] = Some (find_cycle g origin)"
  unfolding find_cycle_def by (rule find_cycle_within_loop)

text \<open>
  Claim C10. For an origin without outbound edges \<^verbatim>\<open>_find_cycle\<close> returns \<^verbatim>\<open>None\<close>: the first
  iteration pops the origin, and the loop ends on the empty stack.
\<close>

theorem find_cycle_no_outbound_edges:
  assumes "get_outbound_edges origin g = []"
  shows "find_cycle g origin = None"
proof -
  have "find_cycle_loop g origin origin [origin] [] = find_cycle_loop g origin origin [] []"
    using assms by (subst find_cycle_loop_unfold) simp
  also have "\<dots> = None"
    by (subst find_cycle_loop_unfold) simp
  finally show ?thesis by (simp add: find_cycle_def)
qed

theorem find_cycle_no_outbound_edges_witness:
  "get_outbound_edges role_E branching_graph = []
   \<and> find_cycle branching_graph role_E = None"
proof -
  have h: "get_outbound_edges role_E branching_graph = []"
    by (simp add: get_outbound_edges_def branching_graph_defs)
  from h find_cycle_no_outbound_edges [OF h] show ?thesis by simp
qed

text \<open>
  Claim C3. A list returned by \<^verbatim>\<open>_find_cycle\<close> is said to be a path from the origin back
  to the origin, every consecutive pair being joined by an edge. On the graph with the
  edges A -> B, B -> C, B -> D, C -> E, D -> A the search from A returns the list [A, D],
  and the graph has no edge from A to D. (After backing out of the dead end C, E the loop
  continues from B although B is no longer on the stack, and pushes D on top of A.)
\<close>

theorem find_cycle_returns_unconnected_pair:
  "find_cycle branching_graph role_A = Some [role_A, role_D]
   \<and> role_D \<notin> set (map destination (get_outbound_edges role_A branching_graph))"
  by (simp add: find_cycle_def find_cycle_loop.simps find_cycle_step_def get_outbound_edges_def branching_graph_defs)

section \<open>Properties of the rules\<close>

lemmas mixed_graph_defs =
  mixed_graph_def user_alice_def role_admin_def role_deploy_def make_principal_def access_def

lemmas rule_defs =
  gen_privesc_findings_def gen_admin_users_without_mfa_finding_def gen_mfa_actions_findings_def
  gen_overprivileged_function_findings_def gen_overprivileged_instance_profile_findings_def
  gen_overprivileged_stack_findings_def gen_os_lpe_finding_def gen_circular_access_finding_def
  mfa_actions_affected_users_def service_assumable_admin_roles_def os_lpe_affected_def

lemma privesc_node_path_list_non_admin:
  "(n, el) \<in> set (privesc_node_path_list env g ns)
     \<Longrightarrow> n \<in> set ns \<and> \<not> is_admin n \<and> can_privesc env g n = (True, el)"
  by (induction ns) (auto split: if_splits prod.splits)

lemma privesc_node_path_list_agree:
  "\<forall>n\<in>set ns. \<not> is_admin n \<longrightarrow> cp g n = can_privesc env g n
     \<Longrightarrow> privesc_node_path_list (env\<lparr>can_privesc := cp\<rparr>) g ns = privesc_node_path_list env g ns"
  by (induction ns) (auto split: prod.splits)

lemma privesc_description_body_update:
  "privesc_description_body (env\<lparr>can_privesc := cp\<rparr>) l = privesc_description_body env l"
  by (induction env l rule: privesc_description_body.induct) (auto simp: Let_def)

lemma circular_access_cycles_origin:
  "c \<in> set (circular_access_cycles g ns)
     \<Longrightarrow> \<exists>origin\<in>set ns. \<not> is_admin origin \<and> find_cycle g origin = Some c"
  by (induction ns) (auto split: if_splits option.splits)

lemma circular_access_cycles_skip_admins:
  "circular_access_cycles g ns = circular_access_cycles g (filter (\<lambda>n. \<not> is_admin n) ns)"
  by (induction ns) (auto split: option.splits)

text \<open>
  Claim C7. Neither the privilege-escalation rule nor the circular-access rule starts a
  search from an administrative node. For the escalation rule: the answers of
  \<^verbatim>\<open>can_privesc\<close> on administrative nodes have no influence on the finding (replacing the
  search by any other that agrees with it on the non-administrative nodes of the graph
  gives the same result), and every principal the finding lists as able to escalate is a
  non-administrative node of the graph. For the circular-access rule: the cycles collected
  are those collected from the non-administrative nodes alone, and every collected cycle
  was returned by a search from a non-administrative node of the graph, which is the first
  node of the cycle.
\<close>

theorem admin_nodes_are_never_search_origins:
  assumes "\<forall>n\<in>set (nodes g). \<not> is_admin n \<longrightarrow> cp g n = can_privesc env g n"
  shows "gen_privesc_findings (env\<lparr>can_privesc := cp\<rparr>) g = gen_privesc_findings env g
    \<and> (\<forall>(n, el)\<in>set (privesc_node_path_list env g (nodes g)). n \<in> set (nodes g) \<and> \<not> is_admin n)
    \<and> circular_access_cycles g (nodes g)
        = circular_access_cycles g (filter (\<lambda>n. \<not> is_admin n) (nodes g))
    \<and> (\<forall>c\<in>set (circular_access_cycles g (nodes g)).
          \<exists>origin\<in>set (nodes g). \<not> is_admin origin \<and> find_cycle g origin = Some c
            \<and> hd c = origin)"
proof (intro conjI)
  show "gen_privesc_findings (env\<lparr>can_privesc := cp\<rparr>) g = gen_privesc_findings env g"
    unfolding gen_privesc_findings_def
    by (simp only: privesc_node_path_list_agree [where ns = "nodes g" and cp = cp and g = g and env = env, OF assms] privesc_description_body_update)
next
  show "\<forall>(n, el)\<in>set (privesc_node_path_list env g (nodes g)). n \<in> set (nodes g) \<and> \<not> is_admin n"
    using privesc_node_path_list_non_admin by blast
next
  show "circular_access_cycles g (nodes g)
      = circular_access_cycles g (filter (\<lambda>n. \<not> is_admin n) (nodes g))"
    by (rule circular_access_cycles_skip_admins)
next
  show "\<forall>c\<in>set (circular_access_cycles g (nodes g)).
      \<exists>origin\<in>set (nodes g). \<not> is_admin origin \<and> find_cycle g origin = Some c \<and> hd c = origin"
  proof
    fix c assume "c \<in> set (circular_access_cycles g (nodes g))"
    then obtain origin where o: "origin \<in> set (nodes g)" "\<not> is_admin origin"
      "find_cycle g origin = Some c"
      using circular_access_cycles_origin by blast
    with find_cycle_starts_at_origin [OF o(3)] show "\<exists>origin\<in>set (nodes g).
        \<not> is_admin origin \<and> find_cycle g origin = Some c \<and> hd c = origin"
      by blast
  qed
qed

theorem admin_nodes_are_never_search_origins_witness:
  "gen_privesc_findings (escalation_env\<lparr>can_privesc := eager_can_privesc\<rparr>) mixed_graph
     = gen_privesc_findings escalation_env mixed_graph
   \<and> eager_can_privesc mixed_graph role_admin \<noteq> can_privesc escalation_env mixed_graph role_admin
   \<and> privesc_node_path_list escalation_env mixed_graph (nodes mixed_graph)
       = [(user_alice, [access user_alice role_admin])]
   \<and> circular_access_cycles mixed_graph (nodes mixed_graph)
       = [[user_alice, role_deploy], [role_deploy, user_alice]]
   \<and> find_cycle mixed_graph role_admin = Some [role_admin, user_alice]"
proof -
  have h: "\<forall>n\<in>set (nodes mixed_graph). \<not> is_admin n
      \<longrightarrow> eager_can_privesc mixed_graph n = can_privesc escalation_env mixed_graph n"
    by (simp add: eager_can_privesc_def escalation_env_def sample_env_def mixed_graph_defs)
  have "eager_can_privesc mixed_graph role_admin \<noteq> can_privesc escalation_env mixed_graph role_admin"
    by (simp add: eager_can_privesc_def escalation_env_def sample_env_def mixed_graph_defs)
  moreover have "privesc_node_path_list escalation_env mixed_graph (nodes mixed_graph)
       = [(user_alice, [access user_alice role_admin])]"
    by (simp add: escalation_env_def sample_env_def mixed_graph_defs)
  moreover have "circular_access_cycles mixed_graph (nodes mixed_graph)
       = [[user_alice, role_deploy], [role_deploy, user_alice]]"
    by (simp add: find_cycle_def find_cycle_loop.simps find_cycle_step_def
        get_outbound_edges_def mixed_graph_defs)
  moreover have "find_cycle mixed_graph role_admin = Some [role_admin, user_alice]"
    by (simp add: find_cycle_def find_cycle_loop.simps find_cycle_step_def
        get_outbound_edges_def mixed_graph_defs)
  ultimately show ?thesis
    using admin_nodes_are_never_search_origins
      [where g = mixed_graph and cp = eager_can_privesc and env = escalation_env, OF h]
    by simp
qed

lemma bullet_list_names:
  assumes "n \<in> set affected"
  shows "\<exists>pre post. bullet_list env affected
           = pre @ ''* '' @ searchable_name env n @ ''\<newline>'' @ post"
proof -
  from assms obtain ys zs where "affected = ys @ n # zs"
    by (auto simp: in_set_conv_decomp)
  then have "bullet_list env affected
      = bullet_list env ys @ ''* '' @ searchable_name env n @ ''\<newline>'' @ bullet_list env zs"
    by (simp add: bullet_list_def)
  then show ?thesis by blast
qed

text \<open>
  Claim C9 (scenario B). If a node of the graph is an administrative IAM user with at
  least one access key, and the simulator allows it \<^verbatim>\<open>iam:CreateUser\<close> without asking for
  MFA, then \<^verbatim>\<open>gen_mfa_actions_findings\<close> returns exactly one finding, of severity Medium,
  whose description has a line naming that user.
\<close>

theorem admin_user_without_mfa_condition_is_reported:
  assumes "bob \<in> set (nodes g)"
    and "contains (arn bob) '':user/''"
    and "is_admin bob"
    and "access_keys bob > 0"
    and "local_check_authorization_handling_mfa env bob ''iam:CreateUser'' ''*'' [] = (True, False)"
  shows "\<exists>f pre post. gen_mfa_actions_findings env g = [f] \<and> severity f = ''Medium''
           \<and> description f = pre @ ''* '' @ searchable_name env bob @ ''\<newline>'' @ post"
proof -
  let ?affected = "mfa_actions_affected_users env (nodes g)"
  have "can_call_without_mfa env bob mfa_sensitive_actions"
    using assms(5) by (simp add: mfa_sensitive_actions_def)
  with assms(1-4) have mem: "bob \<in> set ?affected"
    by (simp add: mfa_actions_affected_users_def)
  then have "length ?affected > 0"
    by (cases ?affected) auto
  then have eq: "gen_mfa_actions_findings env g =
      [\<lparr>title = ''Administrative IAM ''
             @ (if length ?affected > 1 then ''Users'' else ''User'')
             @ '' Can Call Sensitive Actions Without MFA'',
         severity = ''Medium'',
         impact = mfa_actions_impact,
         description = mfa_actions_description_preamble @ bullet_list env ?affected,
         recommendation = mfa_actions_recommendation\<rparr>]"
    by (simp add: gen_mfa_actions_findings_def Let_def)
  from bullet_list_names [OF mem] obtain pre post where
    "bullet_list env ?affected = pre @ ''* '' @ searchable_name env bob @ ''\<newline>'' @ post"
    by blast
  then have "mfa_actions_description_preamble @ bullet_list env ?affected
      = (mfa_actions_description_preamble @ pre) @ ''* '' @ searchable_name env bob @ ''\<newline>'' @ post"
    by simp
  with eq show ?thesis
    by (metis finding.select_convs(2,4))
qed

theorem admin_user_without_mfa_condition_is_reported_witness:
  "gen_mfa_actions_findings bob_env bob_graph =
     [\<lparr>title = ''Administrative IAM User Can Call Sensitive Actions Without MFA'',
       severity = ''Medium'',
       impact = mfa_actions_impact,
       description = mfa_actions_description_preamble @ ''* user/Bob\<newline>'',
       recommendation = mfa_actions_recommendation\<rparr>]
   \<and> (\<exists>f pre post. gen_mfa_actions_findings bob_env bob_graph = [f] \<and> severity f = ''Medium''
         \<and> description f = pre @ ''* user/Bob\<newline>'' @ post)"
proof -
  have "user_bob \<in> set (nodes bob_graph)" by (simp add: bob_graph_def)
  moreover have "contains (arn user_bob) '':user/''" by (simp add: user_bob_def)
  moreover have "is_admin user_bob" by (simp add: user_bob_def)
  moreover have "access_keys user_bob > 0" by (simp add: user_bob_def)
  moreover have "local_check_authorization_handling_mfa bob_env user_bob ''iam:CreateUser'' ''*'' []
      = (True, False)"
    by (simp add: bob_env_def sample_env_def)
  ultimately have "\<exists>f pre post. gen_mfa_actions_findings bob_env bob_graph = [f]
      \<and> severity f = ''Medium''
      \<and> description f = pre @ ''* '' @ searchable_name bob_env user_bob @ ''\<newline>'' @ post"
    by (rule admin_user_without_mfa_condition_is_reported)
  moreover have "searchable_name bob_env user_bob = ''user/Bob''"
    by (simp add: bob_env_def sample_env_def user_bob_def arn_field_def)
  moreover have "gen_mfa_actions_findings bob_env bob_graph =
     [\<lparr>title = ''Administrative IAM User Can Call Sensitive Actions Without MFA'',
       severity = ''Medium'',
       impact = mfa_actions_impact,
       description = mfa_actions_description_preamble @ ''* user/Bob\<newline>'',
       recommendation = mfa_actions_recommendation\<rparr>]"
    by (simp add: gen_mfa_actions_findings_def mfa_actions_affected_users_def
        mfa_sensitive_actions_def bullet_list_def bob_graph_def bob_env_def sample_env_def
        user_bob_def user_alice_def make_principal_def arn_field_def)
  ultimately show ?thesis by simp
qed

text \<open>
  Claim C6 says that every role flagged by \<^verbatim>\<open>gen_os_lpe_finding\<close> is administrative. The
  role Web is not administrative, is attached to an instance profile and may call the SSM
  messaging actions and \<^verbatim>\<open>ssm:SendCommand\<close>; the rule reports it.
\<close>

theorem os_lpe_flags_non_admin_role:
  "gen_os_lpe_finding ssm_env web_graph =
     [\<lparr>title = ''IAM Role With Unsafe SSM Permissions'',
       severity = ''Medium'',
       impact = os_lpe_impact,
       description = os_lpe_description_preamble @ ''* role/Web\<newline>'',
       recommendation = os_lpe_recommendation\<rparr>]
   \<and> searchable_name ssm_env role_web = ''role/Web''
   \<and> is_admin role_web = False"
  by (simp add: gen_os_lpe_finding_def os_lpe_affected_def ssm_env_def web_graph_def role_web_def
      sample_env_def arn_field_def bullet_list_def)

text \<open>
  Claim C6, as the rule is written. \<^verbatim>\<open>gen_os_lpe_finding\<close> returns a finding exactly when
  some node is flagged, the description of the finding lists the flagged nodes, and a node
  is flagged exactly when it is a node of the graph whose ARN contains \<^verbatim>\<open>:role/\<close>, that
  has a non-empty list of instance profiles, and that is authorized for
  \<^verbatim>\<open>ssmmessages:*\<close> and for \<^verbatim>\<open>ssm:SendCommand\<close> or \<^verbatim>\<open>ssm:StartSession\<close>. The attribute
  \<^verbatim>\<open>is_admin\<close> is not among the conditions.
\<close>

theorem os_lpe_flagged_roles:
  "(gen_os_lpe_finding env g = [] \<longleftrightarrow> filter (os_lpe_affected env) (nodes g) = [])
   \<and> (\<forall>f\<in>set (gen_os_lpe_finding env g).
        description f = os_lpe_description_preamble
          @ bullet_list env (filter (os_lpe_affected env) (nodes g)))
   \<and> (n \<in> set (filter (os_lpe_affected env) (nodes g)) \<longleftrightarrow>
        n \<in> set (nodes g) \<and> contains (arn n) '':role/''
        \<and> (\<exists>ips. instance_profile n = Some ips \<and> ips \<noteq> [])
        \<and> local_check_authorization env n ''ssmmessages:*'' ''*'' []
        \<and> (local_check_authorization env n ''ssm:SendCommand'' ''*'' []
           \<or> local_check_authorization env n ''ssm:StartSession'' ''*'' []))"
proof (intro conjI)
  show "gen_os_lpe_finding env g = [] \<longleftrightarrow> filter (os_lpe_affected env) (nodes g) = []"
    by (simp add: gen_os_lpe_finding_def Let_def)
next
  show "\<forall>f\<in>set (gen_os_lpe_finding env g).
        description f = os_lpe_description_preamble
          @ bullet_list env (filter (os_lpe_affected env) (nodes g))"
    by (simp add: gen_os_lpe_finding_def Let_def)
next
  show "n \<in> set (filter (os_lpe_affected env) (nodes g)) \<longleftrightarrow>
        n \<in> set (nodes g) \<and> contains (arn n) '':role/''
        \<and> (\<exists>ips. instance_profile n = Some ips \<and> ips \<noteq> [])
        \<and> local_check_authorization env n ''ssmmessages:*'' ''*'' []
        \<and> (local_check_authorization env n ''ssm:SendCommand'' ''*'' []
           \<or> local_check_authorization env n ''ssm:StartSession'' ''*'' [])"
    by (auto simp: os_lpe_affected_def split: option.splits)
qed

theorem os_lpe_flagged_roles_witness:
  "role_web \<in> set (filter (os_lpe_affected ssm_env) (nodes web_graph))
   \<and> gen_os_lpe_finding ssm_env web_graph \<noteq> []
   \<and> \<not> is_admin role_web"
proof -
  have "role_web \<in> set (nodes web_graph) \<and> contains (arn role_web) '':role/''
        \<and> (\<exists>ips. instance_profile role_web = Some ips \<and> ips \<noteq> [])
        \<and> local_check_authorization ssm_env role_web ''ssmmessages:*'' ''*'' []
        \<and> (local_check_authorization ssm_env role_web ''ssm:SendCommand'' ''*'' []
           \<or> local_check_authorization ssm_env role_web ''ssm:StartSession'' ''*'' [])"
    by (simp add: web_graph_def role_web_def ssm_env_def sample_env_def)
  with os_lpe_flagged_roles [of ssm_env web_graph role_web]
  have mem: "role_web \<in> set (filter (os_lpe_affected ssm_env) (nodes web_graph))"
    by blast
  then have "filter (os_lpe_affected ssm_env) (nodes web_graph) \<noteq> []"
    by (metis empty_iff list.set(1))
  with os_lpe_flagged_roles [of ssm_env web_graph role_web]
  have "gen_os_lpe_finding ssm_env web_graph \<noteq> []"
    by blast
  moreover have "\<not> is_admin role_web" by (simp add: role_web_def)
  ultimately show ?thesis using mem by simp
qed

text \<open>
  Claim C1 says that a resource policy whose account-scoping condition does not match the
  simulated request (\<^verbatim>\<open>aws:SourceAccount\<close> = 000000000000) produces no finding. The bucket
  policy of \<open>bucket_graph\<close> admits the serverless repository only for the source account
  111111111111 and the simulator answers \<open>NEUTRAL\<close>, not \<open>SERVICE_MATCH\<close>; the rule
  reports the bucket all the same, because it tests \<^verbatim>\<open>rpa_result.SERVICE_MATCH\<close>, which is
  the same member for every result, instead of comparing the result with it.
\<close>

theorem confused_deputy_rule_ignores_simulation_result:
  "resource_policy_authorization sample_env ''serverlessrepo.amazonaws.com'' ''111111111111''
     (Some (policy_doc bucket_policy)) ''s3:GetObject'' (policy_arn bucket_policy)
     [(''aws:SourceAccount'', ''000000000000'')] = NEUTRAL
   \<and> gen_resources_with_potential_confused_deputies sample_env bucket_graph =
     Inr [\<lparr>title = ''Resources With A Potential Confused-Deputy Risk'',
           severity = ''Medium'',
           impact = confused_deputies_impact,
           description = confused_deputies_description_prefix
             @ ''* With service serverlessrepo.amazonaws.com, the resource ''
             @ ''arn:aws:s3:::packages for the action(s): s3:GetObject'',
           recommendation = confused_deputies_recommendation\<rparr>]"
  by (simp add: gen_resources_with_potential_confused_deputies_def resource_service_action_map_def
      bucket_graph_def bucket_policy_def sample_env_def arn_field_def truthy_def
      member_SERVICE_MATCH_def)

section \<open>Properties of the aggregation and of the report\<close>

lemma gen_all_findings_result:
  "fst (gen_all_findings env g tr) =
     (case gen_privesc_findings env g of
        Inl e \<Rightarrow> Inl e
      | Inr privesc \<Rightarrow>
          (case gen_overprivileged_instance_profile_findings env g of
             Inl e \<Rightarrow> Inl e
           | Inr profiles \<Rightarrow>
               (case gen_circular_access_finding env g of
                  Inl e \<Rightarrow> Inl e
                | Inr circular \<Rightarrow>
                    Inr (privesc @ gen_admin_users_without_mfa_finding env g
                      @ gen_mfa_actions_findings env g
                      @ gen_overprivileged_function_findings env g
                      @ profiles
                      @ gen_overprivileged_stack_findings env g
                      @ gen_os_lpe_finding env g
                      @ circular))))"
  by (simp add: gen_all_findings_def and_then_def extend_with_def split: sum.splits)

lemma gen_all_findings_trace_complete:
  "fst (gen_all_findings env g tr) = Inr fs \<Longrightarrow>
     snd (gen_all_findings env g tr) = tr @
       [''gen_privesc_findings'', ''gen_admin_users_without_mfa_finding'',
        ''gen_mfa_actions_findings'', ''gen_overprivileged_function_findings'',
        ''gen_overprivileged_instance_profile_findings'', ''gen_overprivileged_stack_findings'',
        ''gen_os_lpe_finding'', ''gen_circular_access_finding'']"
  by (simp add: gen_all_findings_def and_then_def extend_with_def split: sum.splits)

lemma gen_all_findings_trace_first:
  "take (Suc (length tr)) (snd (gen_all_findings env g tr)) = tr @ [''gen_privesc_findings'']"
  by (simp add: gen_all_findings_def and_then_def extend_with_def split: sum.splits)

text \<open>
  Claim C2 says that the list of \<^verbatim>\<open>gen_all_findings\<close> contains the output of every rule,
  the confused-deputy rule included. \<^verbatim>\<open>gen_all_findings\<close> calls eight rules and
  \<^verbatim>\<open>gen_resources_with_potential_confused_deputies\<close> is not one of them: on
  \<open>bucket_graph\<close> that rule yields a finding, and \<^verbatim>\<open>gen_all_findings\<close> returns the empty
  list.
\<close>

theorem gen_all_findings_omits_confused_deputy_rule:
  "gen_resources_with_potential_confused_deputies sample_env bucket_graph =
     Inr [\<lparr>title = ''Resources With A Potential Confused-Deputy Risk'',
           severity = ''Medium'',
           impact = confused_deputies_impact,
           description = confused_deputies_description_prefix
             @ ''* With service serverlessrepo.amazonaws.com, the resource ''
             @ ''arn:aws:s3:::packages for the action(s): s3:GetObject'',
           recommendation = confused_deputies_recommendation\<rparr>]
   \<and> fst (gen_all_findings sample_env bucket_graph []) = Inr []"
  by (simp add: gen_resources_with_potential_confused_deputies_def resource_service_action_map_def
      bucket_graph_def bucket_policy_def sample_env_def arn_field_def truthy_def
      member_SERVICE_MATCH_def gen_all_findings_result rule_defs user_alice_def
      make_principal_def find_cycle_def find_cycle_loop.simps find_cycle_step_def
      get_outbound_edges_def)

subsection \<open>Two runs over collaborators that keep state\<close>

lemma yields_ret: "yields I (ret x) (Inr x)"
  by (simp add: yields_def ret_def)

lemma yields_raise: "yields I (raise e) (Inl e)"
  by (simp add: yields_def raise_def)

lemma yields_call: "answers I c a \<Longrightarrow> yields I (call c) (Inr a)"
  by (auto simp: yields_def answers_def call_def split: prod.splits)

lemma yields_bnd: "yields I m (Inr x) \<Longrightarrow> yields I (f x) r \<Longrightarrow> yields I (bnd m f) r"
  by (fastforce simp: yields_def bnd_def)

lemma yields_bnd_raise: "yields I m (Inl e) \<Longrightarrow> yields I (bnd m f) (Inl e)"
  by (fastforce simp: yields_def bnd_def)

lemma yields_bnd_sum:
  "yields I m r \<Longrightarrow> (\<And>x. r = Inr x \<Longrightarrow> yields I (f x) (k x))
     \<Longrightarrow> yields I (bnd m f) (case r of Inl e \<Rightarrow> Inl e | Inr x \<Rightarrow> k x)"
  by (cases r) (auto intro: yields_bnd yields_bnd_raise)

lemma yields_ret_eq: "r = Inr x \<Longrightarrow> yields I (ret x) r"
  by (simp add: yields_ret)

lemma consistent_calls:
  assumes "consistent io env g I"
  shows "yields I (call (io_can_privesc io g n)) (Inr (can_privesc env g n))"
    and "yields I (call (io_local_check_authorization io n action resource ctx))
           (Inr (local_check_authorization env n action resource ctx))"
    and "yields I (call (io_local_check_authorization_handling_mfa io n action resource ctx))
           (Inr (local_check_authorization_handling_mfa env n action resource ctx))"
    and "yields I (call (io_resource_policy_authorization io service acct doc action resource ctx))
           (Inr (resource_policy_authorization env service acct doc action resource ctx))"
    and "yields I (call (io_get_account_id io a)) (Inr (get_account_id env a))"
    and "yields I (call (io_searchable_name io n)) (Inr (searchable_name env n))"
    and "yields I (call (io_describe_edge io e)) (Inr (describe_edge env e))"
  using assms by (simp_all add: consistent_def yields_call)

lemma bullet_list_io_yields:
  assumes "consistent io env g I"
  shows "yields I (bullet_list_io io ns) (Inr (bullet_list env ns))"
proof (induction ns)
  case Nil
  show ?case by (simp add: bullet_list_def yields_ret)
next
  case (Cons n ns)
  show ?case
    unfolding bullet_list_io.simps
    by (intro yields_bnd [OF consistent_calls(6) [OF assms]] yields_bnd [OF Cons.IH]
        yields_ret_eq) (simp add: bullet_list_def)
qed

lemma privesc_node_path_list_io_yields:
  assumes "consistent io env g I"
  shows "yields I (privesc_node_path_list_io io g ns) (Inr (privesc_node_path_list env g ns))"
proof (induction ns)
  case Nil
  show ?case by (simp add: yields_ret)
next
  case (Cons n ns)
  show ?case
  proof (cases "is_admin n")
    case True
    with Cons.IH show ?thesis by simp
  next
    case False
    obtain res el where cp: "can_privesc env g n = (res, el)"
      by (cases "can_privesc env g n")
    have answer: "yields I (call (io_can_privesc io g n)) (Inr (res, el))"
      using consistent_calls(1) [OF assms, of n] by (simp add: cp)
    have pure: "privesc_node_path_list env g (n # ns) =
        (if res then (n, el) # privesc_node_path_list env g ns
         else privesc_node_path_list env g ns)"
      using False by (simp add: cp)
    have io: "privesc_node_path_list_io io g (n # ns) =
        bnd (call (io_can_privesc io g n)) (\<lambda>(privesc_res, edge_list).
        bnd (privesc_node_path_list_io io g ns) (\<lambda>found.
        ret (if privesc_res then (n, edge_list) # found else found)))"
      using False by simp
    show ?thesis
      unfolding pure io
      by (rule yields_bnd [OF answer], simp only: prod.case, rule yields_bnd [OF Cons.IH],
          rule yields_ret_eq, simp)
  qed
qed

lemma describe_edges_io_yields:
  assumes "consistent io env g I"
  shows "yields I (describe_edges_io io es)
           (Inr (concat (map (\<lambda>edge. ''   * '' @ describe_edge env edge @ ''\<newline>'') es)))"
proof (induction es)
  case Nil
  show ?case by (simp add: yields_ret)
next
  case (Cons e es)
  show ?case
    unfolding describe_edges_io.simps
    by (intro yields_bnd [OF consistent_calls(7) [OF assms]] yields_bnd [OF Cons.IH]
        yields_ret_eq) simp
qed

lemma privesc_description_body_io_yields:
  assumes "consistent io env g I"
  shows "yields I (privesc_description_body_io io l) (privesc_description_body env l)"
proof (induction l)
  case Nil
  show ?case by (simp add: yields_ret)
next
  case (Cons p l)
  obtain n el where p: "p = (n, el)" by (cases p)
  show ?case
  proof (cases "el = []")
    case True
    then show ?thesis by (simp add: p yields_raise)
  next
    case False
    show ?thesis
    proof (cases "privesc_description_body env l")
      case (Inl e)
      with False Cons.IH show ?thesis
        unfolding p privesc_description_body_io.simps
        by (simp add: Let_def)
           (intro yields_bnd [OF consistent_calls(6) [OF assms]]
             yields_bnd [OF describe_edges_io_yields [OF assms]] yields_bnd_raise, simp)
    next
      case (Inr body)
      with False Cons.IH show ?thesis
        unfolding p privesc_description_body_io.simps
        by (simp add: Let_def)
           (intro yields_bnd [OF consistent_calls(6) [OF assms]]
             yields_bnd [OF describe_edges_io_yields [OF assms]]
             yields_bnd [where x = body] yields_ret_eq, simp_all)
    qed
  qed
qed

lemma gen_privesc_findings_io_yields:
  assumes "consistent io env g I"
  shows "yields I (gen_privesc_findings_io io g) (gen_privesc_findings env g)"
proof -
  let ?l = "privesc_node_path_list env g (nodes g)"
  note list = privesc_node_path_list_io_yields [OF assms, of "nodes g"]
  note body = privesc_description_body_io_yields [OF assms, of ?l]
  show ?thesis
  proof (cases "length ?l > 0")
    case False
    then show ?thesis
      unfolding gen_privesc_findings_io_def gen_privesc_findings_def
      by (intro yields_bnd [OF list]) (simp add: yields_ret)
  next
    case True
    show ?thesis
    proof (cases "privesc_description_body env ?l")
      case (Inl e)
      with True body show ?thesis
        unfolding gen_privesc_findings_io_def gen_privesc_findings_def
        by (intro yields_bnd [OF list]) (simp add: yields_bnd_raise)
    next
      case (Inr body)
      with True body show ?thesis
        unfolding gen_privesc_findings_io_def gen_privesc_findings_def
        by (intro yields_bnd [OF list]) (auto simp: Let_def intro!: yields_bnd [where x = body] yields_ret_eq)
    qed
  qed
qed

lemma admin_users_without_mfa_affected_io_yields:
  assumes "consistent io env g I"
  shows "yields I (admin_users_without_mfa_affected_io io ns)
           (Inr (filter (\<lambda>node. startswith (searchable_name env node) ''user/'' \<and> is_admin node
                           \<and> \<not> has_mfa node) ns))"
proof (induction ns)
  case Nil
  show ?case by (simp add: yields_ret)
next
  case (Cons n ns)
  show ?case
    unfolding admin_users_without_mfa_affected_io.simps
    by (intro yields_bnd [OF consistent_calls(6) [OF assms]] yields_bnd [OF Cons.IH]
        yields_ret_eq) simp
qed

lemma user_list_io_yields:
  assumes "consistent io env g I"
  shows "yields I (user_list_io io ns) (Inr (map (\<lambda>node. ''* '' @ searchable_name env node) ns))"
proof (induction ns)
  case Nil
  show ?case by (simp add: yields_ret)
next
  case (Cons n ns)
  show ?case
    unfolding user_list_io.simps
    by (intro yields_bnd [OF consistent_calls(6) [OF assms]] yields_bnd [OF Cons.IH]
        yields_ret_eq) simp
qed

lemma gen_admin_users_without_mfa_finding_io_yields:
  assumes "consistent io env g I"
  shows "yields I (gen_admin_users_without_mfa_finding_io io g)
           (Inr (gen_admin_users_without_mfa_finding env g))"
  unfolding gen_admin_users_without_mfa_finding_io_def gen_admin_users_without_mfa_finding_def
  by (rule yields_bnd [OF admin_users_without_mfa_affected_io_yields [OF assms]])
     (auto simp: Let_def yields_ret
        intro!: yields_bnd [OF user_list_io_yields [OF assms]] yields_ret_eq)

lemma can_call_without_mfa_io_yields:
  assumes "consistent io env g I"
  shows "yields I (can_call_without_mfa_io io n actions)
           (Inr (can_call_without_mfa env n actions))"
proof (induction actions)
  case Nil
  show ?case by (simp add: yields_ret)
next
  case (Cons a actions)
  obtain auth needmfa where
    ans: "local_check_authorization_handling_mfa env n a ''*'' [] = (auth, needmfa)"
    by (cases "local_check_authorization_handling_mfa env n a ''*'' []")
  have answer: "yields I (call (io_local_check_authorization_handling_mfa io n a ''*'' []))
      (Inr (auth, needmfa))"
    using consistent_calls(3) [OF assms, of n a "''*''" "[]"] by (simp add: ans)
  have pure: "can_call_without_mfa env n (a # actions) =
      (if auth \<and> \<not> needmfa then True else can_call_without_mfa env n actions)"
    by (simp add: ans)
  show ?case
    unfolding pure can_call_without_mfa_io.simps
    by (rule yields_bnd [OF answer], simp only: prod.case)
       (use Cons.IH in \<open>auto simp: yields_ret\<close>)
qed

lemma mfa_actions_affected_users_io_yields:
  assumes "consistent io env g I"
  shows "yields I (mfa_actions_affected_users_io io ns) (Inr (mfa_actions_affected_users env ns))"
proof (induction ns)
  case Nil
  show ?case by (simp add: yields_ret mfa_actions_affected_users_def)
next
  case (Cons n ns)
  show ?case
  proof (cases "contains (arn n) '':user/'' \<and> is_admin n \<and> access_keys n > 0")
    case False
    with Cons.IH show ?thesis by (auto simp: mfa_actions_affected_users_def)
  next
    case True
    have io: "mfa_actions_affected_users_io io (n # ns) =
        bnd (can_call_without_mfa_io io n mfa_sensitive_actions) (\<lambda>can_call.
        bnd (mfa_actions_affected_users_io io ns) (\<lambda>affected.
        ret (if can_call then n # affected else affected)))"
      using True by simp
    show ?thesis
      unfolding io
      by (intro yields_bnd [OF can_call_without_mfa_io_yields [OF assms]]
          yields_bnd [OF Cons.IH] yields_ret_eq)
         (use True in \<open>simp add: mfa_actions_affected_users_def\<close>)
  qed
qed

lemma gen_mfa_actions_findings_io_yields:
  assumes "consistent io env g I"
  shows "yields I (gen_mfa_actions_findings_io io g) (Inr (gen_mfa_actions_findings env g))"
  unfolding gen_mfa_actions_findings_io_def gen_mfa_actions_findings_def
  by (rule yields_bnd [OF mfa_actions_affected_users_io_yields [OF assms]])
     (auto simp: Let_def yields_ret
        intro!: yields_bnd [OF bullet_list_io_yields [OF assms]] yields_ret_eq)

lemma gen_overprivileged_instance_profile_findings_io_yields:
  assumes "consistent io env g I"
  shows "yields I (gen_overprivileged_instance_profile_findings_io io g)
           (gen_overprivileged_instance_profile_findings env g)"
  unfolding gen_overprivileged_instance_profile_findings_io_def
    gen_overprivileged_instance_profile_findings_def
  by (auto simp: yields_ret yields_raise split: sum.splits
        intro!: yields_bnd [OF bullet_list_io_yields [OF assms]] yields_ret_eq)

lemma service_assumable_admin_roles_io_yields:
  assumes "consistent io env g I"
  shows "yields I (service_assumable_admin_roles_io io service ns)
           (Inr (service_assumable_admin_roles env service ns))"
proof (induction ns)
  case Nil
  show ?case by (simp add: yields_ret service_assumable_admin_roles_def)
next
  case (Cons n ns)
  show ?case
  proof (cases "contains (arn n) '':role/'' \<and> is_admin n")
    case False
    with Cons.IH show ?thesis by (auto simp: service_assumable_admin_roles_def)
  next
    case True
    have io: "service_assumable_admin_roles_io io service (n # ns) =
        bnd (call (io_get_account_id io (arn n))) (\<lambda>account_id.
        bnd (call (io_resource_policy_authorization io service account_id (trust_policy n)
                     ''sts:AssumeRole'' (arn n) [])) (\<lambda>rpa_result.
        bnd (service_assumable_admin_roles_io io service ns) (\<lambda>affected.
        ret (if rpa_result = SERVICE_MATCH then n # affected else affected))))"
      using True by simp
    show ?thesis
      unfolding io
      by (intro yields_bnd [OF consistent_calls(5) [OF assms]]
          yields_bnd [OF consistent_calls(4) [OF assms]] yields_bnd [OF Cons.IH] yields_ret_eq)
         (use True in \<open>simp add: service_assumable_admin_roles_def\<close>)
  qed
qed

lemma gen_overprivileged_function_findings_io_yields:
  assumes "consistent io env g I"
  shows "yields I (gen_overprivileged_function_findings_io io g)
           (Inr (gen_overprivileged_function_findings env g))"
  unfolding gen_overprivileged_function_findings_io_def gen_overprivileged_function_findings_def
  by (rule yields_bnd [OF service_assumable_admin_roles_io_yields [OF assms]])
     (auto simp: Let_def yields_ret
        intro!: yields_bnd [OF bullet_list_io_yields [OF assms]] yields_ret_eq)

lemma gen_overprivileged_stack_findings_io_yields:
  assumes "consistent io env g I"
  shows "yields I (gen_overprivileged_stack_findings_io io g)
           (Inr (gen_overprivileged_stack_findings env g))"
  unfolding gen_overprivileged_stack_findings_io_def gen_overprivileged_stack_findings_def
  by (rule yields_bnd [OF service_assumable_admin_roles_io_yields [OF assms]])
     (auto simp: Let_def yields_ret
        intro!: yields_bnd [OF bullet_list_io_yields [OF assms]] yields_ret_eq)

lemma os_lpe_affected_io_yields:
  assumes "consistent io env g I"
  shows "yields I (os_lpe_affected_io io n) (Inr (os_lpe_affected env n))"
  unfolding os_lpe_affected_io_def os_lpe_affected_def
  by (auto simp: yields_ret intro!: yields_bnd [OF consistent_calls(2) [OF assms]] yields_ret_eq)

lemma os_lpe_affected_roles_io_yields:
  assumes "consistent io env g I"
  shows "yields I (os_lpe_affected_roles_io io ns) (Inr (filter (os_lpe_affected env) ns))"
proof (induction ns)
  case Nil
  show ?case by (simp add: yields_ret)
next
  case (Cons n ns)
  show ?case
    unfolding os_lpe_affected_roles_io.simps
    by (intro yields_bnd [OF os_lpe_affected_io_yields [OF assms]] yields_bnd [OF Cons.IH]
        yields_ret_eq) simp
qed

lemma gen_os_lpe_finding_io_yields:
  assumes "consistent io env g I"
  shows "yields I (gen_os_lpe_finding_io io g) (Inr (gen_os_lpe_finding env g))"
  unfolding gen_os_lpe_finding_io_def gen_os_lpe_finding_def
  by (rule yields_bnd [OF os_lpe_affected_roles_io_yields [OF assms]])
     (auto simp: Let_def yields_ret
        intro!: yields_bnd [OF bullet_list_io_yields [OF assms]] yields_ret_eq)

lemma find_cycle_loop_io_unfold:
  assumes "io_get_outbound_edges io current_root g w = (get_outbound_edges current_root g, w1)"
  shows "find_cycle_loop_io io g origin current_root current_stack explored_nodes w =
     (case find_cycle_step g origin current_root current_stack explored_nodes of
        Return r \<Rightarrow> Some (r, if current_stack = [] then w else w1)
      | Continue next_root next_stack next_explored \<Rightarrow>
          find_cycle_loop_io io g origin next_root next_stack next_explored w1)"
  by (subst find_cycle_loop_io.simps)
     (simp add: assms find_cycle_step_def Let_def del: length_filter_map)

lemma find_cycle_loop_io_refines:
  "consistent io env g I \<Longrightarrow> I w \<Longrightarrow>
     \<exists>w'. find_cycle_loop_io io g origin current_root current_stack explored_nodes w
            = Some (find_cycle_loop g origin current_root current_stack explored_nodes, w')
          \<and> I w'"
proof (induction g origin current_root current_stack explored_nodes arbitrary: w
    rule: find_cycle_loop.induct)
  case (1 g origin current_root current_stack explored_nodes)
  from "1.prems" have "answers I (io_get_outbound_edges io current_root g)
      (get_outbound_edges current_root g)"
    by (simp add: consistent_def)
  with "1.prems"(2) obtain w1 where
    out: "io_get_outbound_edges io current_root g w = (get_outbound_edges current_root g, w1)"
    and w1: "I w1"
    by (cases "io_get_outbound_edges io current_root g w") (auto simp: answers_def)
  note io = find_cycle_loop_io_unfold [OF out, of origin current_stack explored_nodes]
  show ?case
  proof (cases "find_cycle_step g origin current_root current_stack explored_nodes")
    case (Return r)
    then have "find_cycle_loop g origin current_root current_stack explored_nodes = r"
      by (subst find_cycle_loop.simps) simp
    with Return io "1.prems"(2) w1 show ?thesis by simp
  next
    case (Continue next_root next_stack next_explored)
    then have "find_cycle_loop g origin current_root current_stack explored_nodes
        = find_cycle_loop g origin next_root next_stack next_explored"
      by (subst find_cycle_loop.simps) simp
    with Continue io "1.IH" [OF Continue "1.prems"(1) w1] show ?thesis by simp
  qed
qed

lemma find_cycle_io_yields:
  assumes "consistent io env g I"
  shows "yields I (find_cycle_io io g origin) (Inr (find_cycle g origin))"
  unfolding yields_def
proof (intro allI impI)
  fix w assume "I w"
  from find_cycle_loop_io_refines [OF assms this, of origin origin "[origin]" "[]"]
  show "\<exists>w'. find_cycle_io io g origin w = Some (Inr (find_cycle g origin), w') \<and> I w'"
    by (auto simp: find_cycle_io_def find_cycle_def)
qed

lemma circular_access_cycles_io_yields:
  assumes "consistent io env g I"
  shows "yields I (circular_access_cycles_io io g ns) (Inr (circular_access_cycles g ns))"
proof (induction ns)
  case Nil
  show ?case by (simp add: yields_ret)
next
  case (Cons n ns)
  show ?case
  proof (cases "is_admin n")
    case True
    with Cons.IH show ?thesis by simp
  next
    case False
    have io: "circular_access_cycles_io io g (n # ns) =
        bnd (find_cycle_io io g n) (\<lambda>cycle_result.
        bnd (circular_access_cycles_io io g ns) (\<lambda>cycles.
        ret (case cycle_result of None \<Rightarrow> cycles | Some c \<Rightarrow> c # cycles)))"
      using False by simp
    show ?thesis
      unfolding io
      by (intro yields_bnd [OF find_cycle_io_yields [OF assms]] yields_bnd [OF Cons.IH]
          yields_ret_eq)
         (use False in \<open>simp split: option.splits\<close>)
  qed
qed

lemma searchable_names_io_yields:
  assumes "consistent io env g I"
  shows "yields I (searchable_names_io io ns) (Inr (map (searchable_name env) ns))"
proof (induction ns)
  case Nil
  show ?case by (simp add: yields_ret)
next
  case (Cons n ns)
  show ?case
    unfolding searchable_names_io.simps
    by (intro yields_bnd [OF consistent_calls(6) [OF assms]] yields_bnd [OF Cons.IH]
        yields_ret_eq) simp
qed

lemma circular_access_description_body_io_yields:
  assumes "consistent io env g I"
  shows "yields I (circular_access_description_body_io io cycles)
           (circular_access_description_body env cycles)"
proof (induction cycles)
  case Nil
  show ?case by (simp add: yields_ret)
next
  case (Cons c cycles)
  note names = searchable_names_io_yields [OF assms, of c]
  show ?case
  proof (cases c)
    case Nil
    then show ?thesis
      unfolding circular_access_description_body_io.simps
      by (intro yields_bnd [OF names]) (simp add: yields_raise)
  next
    case (Cons first others)
    note first = consistent_calls(6) [OF assms, of first]
    show ?thesis
    proof (cases "circular_access_description_body env cycles")
      case (Inl e)
      with Cons Cons.IH show ?thesis
        unfolding circular_access_description_body_io.simps
        by (intro yields_bnd [OF names], simp)
           (rule yields_bnd [OF first], rule yields_bnd_raise, simp)
    next
      case (Inr body)
      with Cons Cons.IH show ?thesis
        unfolding circular_access_description_body_io.simps
        by (intro yields_bnd [OF names], simp)
           (rule yields_bnd [OF first], rule yields_bnd [where x = body], simp,
            rule yields_ret_eq, simp)
    qed
  qed
qed

lemma gen_circular_access_finding_io_yields:
  assumes "consistent io env g I"
  shows "yields I (gen_circular_access_finding_io io g) (gen_circular_access_finding env g)"
proof -
  let ?l = "circular_access_cycles g (nodes g)"
  note list = circular_access_cycles_io_yields [OF assms, of "nodes g"]
  note body = circular_access_description_body_io_yields [OF assms, of ?l]
  show ?thesis
  proof (cases "length ?l > 0")
    case False
    then show ?thesis
      unfolding gen_circular_access_finding_io_def gen_circular_access_finding_def
      by (intro yields_bnd [OF list]) (simp add: yields_ret)
  next
    case True
    show ?thesis
    proof (cases "circular_access_description_body env ?l")
      case (Inl e)
      with True body show ?thesis
        unfolding gen_circular_access_finding_io_def gen_circular_access_finding_def
        by (intro yields_bnd [OF list]) (simp add: yields_bnd_raise)
    next
      case (Inr description_body)
      with True body show ?thesis
        unfolding gen_circular_access_finding_io_def gen_circular_access_finding_def
        by (intro yields_bnd [OF list])
           (auto simp: Let_def intro!: yields_bnd [where x = description_body] yields_ret_eq)
    qed
  qed
qed

lemma extend_io_then:
  "yields I rule (Inr fs) \<Longrightarrow> yields I (k (result @ fs)) r
     \<Longrightarrow> yields I (bnd (extend_io result rule) k) r"
  unfolding extend_io_def by (fastforce simp: yields_def bnd_def ret_def)

lemma extend_io_raises:
  "yields I rule (Inl e) \<Longrightarrow> yields I (bnd (extend_io result rule) k) (Inl e)"
  unfolding extend_io_def by (intro yields_bnd_raise)

lemma extend_io_last:
  "yields I rule (Inr fs) \<Longrightarrow> yields I (extend_io result rule) (Inr (result @ fs))"
  unfolding extend_io_def by (fastforce simp: yields_def bnd_def ret_def)

lemma extend_io_last_eq:
  "yields I rule (Inr fs) \<Longrightarrow> r = Inr (result @ fs) \<Longrightarrow> yields I (extend_io result rule) r"
  by (simp add: extend_io_last)

lemma extend_io_last_raises:
  "yields I rule (Inl e) \<Longrightarrow> yields I (extend_io result rule) (Inl e)"
  unfolding extend_io_def by (intro yields_bnd_raise)

lemma gen_all_findings_io_yields:
  assumes "consistent io env g I"
  shows "yields I (gen_all_findings_io io g) (fst (gen_all_findings env g tr))"
proof -
  note privesc = gen_privesc_findings_io_yields [OF assms]
  note admin_users = gen_admin_users_without_mfa_finding_io_yields [OF assms]
  note mfa_actions = gen_mfa_actions_findings_io_yields [OF assms]
  note lambdas = gen_overprivileged_function_findings_io_yields [OF assms]
  note profiles = gen_overprivileged_instance_profile_findings_io_yields [OF assms]
  note stacks = gen_overprivileged_stack_findings_io_yields [OF assms]
  note os_lpe = gen_os_lpe_finding_io_yields [OF assms]
  note circular = gen_circular_access_finding_io_yields [OF assms]
  show ?thesis
  proof (cases "gen_privesc_findings env g")
    case (Inl e)
    with privesc show ?thesis
      unfolding gen_all_findings_io_def gen_all_findings_result
      by (simp add: extend_io_raises)
  next
    case p: (Inr fs1)
    show ?thesis
    proof (cases "gen_overprivileged_instance_profile_findings env g")
      case (Inl e)
      with p privesc profiles show ?thesis
        unfolding gen_all_findings_io_def gen_all_findings_result
        by (simp, intro extend_io_then [OF _ extend_io_then [OF admin_users
              extend_io_then [OF mfa_actions extend_io_then [OF lambdas]]]])
           (simp_all add: extend_io_raises)
    next
      case q: (Inr fs5)
      show ?thesis
      proof (cases "gen_circular_access_finding env g")
        case (Inl e)
        with p q privesc profiles circular show ?thesis
          unfolding gen_all_findings_io_def gen_all_findings_result
          by (simp, intro extend_io_then [OF _ extend_io_then [OF admin_users
                extend_io_then [OF mfa_actions extend_io_then [OF lambdas
                extend_io_then [OF _ extend_io_then [OF stacks
                extend_io_then [OF os_lpe]]]]]]])
             (simp_all add: extend_io_last_raises)
      next
        case (Inr fs8)
        with p q privesc profiles circular show ?thesis
          unfolding gen_all_findings_io_def gen_all_findings_result
          by (simp, intro extend_io_then [OF _ extend_io_then [OF admin_users
                extend_io_then [OF mfa_actions extend_io_then [OF lambdas
                extend_io_then [OF _ extend_io_then [OF stacks
                extend_io_then [OF os_lpe]]]]]]])
             (simp_all, rule extend_io_last_eq, assumption, simp)
      qed
    qed
  qed
qed

lemma caching_io_consistent: "consistent (caching_io env) env g (cache_valid g)"
proof -
  have "answers (cache_valid g) (io_get_outbound_edges (caching_io env) n g)
      (get_outbound_edges n g)" for n
    unfolding answers_def
  proof (intro allI impI)
    fix w assume valid: "cache_valid g w"
    show "fst (io_get_outbound_edges (caching_io env) n g w) = get_outbound_edges n g
        \<and> cache_valid g (snd (io_get_outbound_edges (caching_io env) n g w))"
    proof (cases "map_of w n")
      case None
      with valid show ?thesis by (simp add: caching_io_def cache_valid_def)
    next
      case (Some cached)
      then have "(n, cached) \<in> set w" by (rule map_of_SomeD)
      with valid have "cached = get_outbound_edges n g"
        by (auto simp: cache_valid_def list_all_iff)
      with Some valid show ?thesis by (simp add: caching_io_def)
    qed
  qed
  then show ?thesis
    by (simp add: consistent_def) (simp add: answers_def caching_io_def)
qed

lemma first_run_titles:
  "map_option (\<lambda>(r, w). (map_sum id (map title) r, map fst w))
       (gen_all_findings_io (caching_io escalation_env) mixed_graph [])
     = Some (Inr [''IAM Principal Can Escalate Privileges'',
                  ''IAM Principals with Circular Access''],
             [role_deploy, user_alice])"
  by code_simp

lemma stale_run_titles:
  "map_option (\<lambda>(r, w). map_sum id (map title) r)
       (gen_all_findings_io (caching_io escalation_env) mixed_graph [(user_alice, [])])
     = Some (Inr [''IAM Principal Can Escalate Privileges''])"
  by code_simp

text \<open>
  Claim C8. \<^verbatim>\<open>gen_all_findings\<close> is deterministic on its input. Let the collaborators keep
  state, and let them be consistent: on every state that satisfies an invariant \<open>I\<close> each
  call answers as a function of its arguments and leaves a state satisfying \<open>I\<close> (a cache
  may fill, but what it holds is right). Then two evaluations of \<^verbatim>\<open>gen_all_findings\<close> on
  the same graph, started in any two such states (the second, for instance, in the state
  the first has left), both return, with the same outcome: the same findings, with the
  same fields, in the same order, or the same error. The outcome is the one the rules
  compute from the answers alone. The invariant is needed: a cache that holds wrong edges
  changes the findings, as the second part of the witness shows.
\<close>

theorem gen_all_findings_deterministic:
  assumes "consistent io env g I" and "I w1" and "I w2"
  shows "\<exists>r w1' w2'. gen_all_findings_io io g w1 = Some (r, w1')
           \<and> gen_all_findings_io io g w2 = Some (r, w2')
           \<and> I w1' \<and> I w2' \<and> r = fst (gen_all_findings env g [])"
  using gen_all_findings_io_yields [OF assms(1), of "[]"] assms(2,3)
  unfolding yields_def by blast

theorem gen_all_findings_deterministic_witness:
  "(\<exists>r wa wb.
       gen_all_findings_io (caching_io escalation_env) mixed_graph [] = Some (r, wa)
       \<and> gen_all_findings_io (caching_io escalation_env) mixed_graph wa = Some (r, wb)
       \<and> map fst wa = [role_deploy, user_alice])
   \<and> map_option (\<lambda>(r, w). map_sum id (map title) r)
         (gen_all_findings_io (caching_io escalation_env) mixed_graph [(user_alice, [])])
       = Some (Inr [''IAM Principal Can Escalate Privileges''])"
proof -
  let ?run = "gen_all_findings_io (caching_io escalation_env) mixed_graph"
  note consistent = caching_io_consistent [of escalation_env mixed_graph]
  have empty: "cache_valid mixed_graph []"
    by (simp add: cache_valid_def)
  from gen_all_findings_deterministic [OF consistent empty empty]
  obtain r wa where first: "?run [] = Some (r, wa)" and filled: "cache_valid mixed_graph wa"
    by blast
  from gen_all_findings_deterministic [OF consistent empty filled] first
  obtain wb where second: "?run wa = Some (r, wb)"
    by auto
  from first first_run_titles have cached: "map fst wa = [role_deploy, user_alice]"
    by simp
  have "\<exists>r wa wb. ?run [] = Some (r, wa) \<and> ?run wa = Some (r, wb)
      \<and> map fst wa = [role_deploy, user_alice]"
    by (intro exI conjI) (rule first, rule second, rule cached)
  then show ?thesis
    using stale_run_titles by (rule conjI)
qed

text \<open>
  Claim C4 says that without an account identifier in the metadata \<^verbatim>\<open>gen_report\<close> fails
  before any rule runs. On \<open>unnamed_graph\<close>, whose metadata is empty, \<^verbatim>\<open>gen_report\<close>
  raises \<^verbatim>\<open>KeyError\<close> after all eight rules have been invoked.
\<close>

theorem gen_report_without_account_id_runs_rules:
  "metadata unnamed_graph ''account_id'' = None
   \<and> gen_report sample_env unnamed_graph [] =
    (Inl KeyError,
     [''gen_privesc_findings'', ''gen_admin_users_without_mfa_finding'',
      ''gen_mfa_actions_findings'', ''gen_overprivileged_function_findings'',
      ''gen_overprivileged_instance_profile_findings'', ''gen_overprivileged_stack_findings'',
      ''gen_os_lpe_finding'', ''gen_circular_access_finding''])"
  by (simp add: gen_report_def unnamed_graph_def sample_env_def arn_field_def
      gen_all_findings_def and_then_def extend_with_def gen_privesc_findings_def
      gen_admin_users_without_mfa_finding_def gen_mfa_actions_findings_def
      gen_overprivileged_function_findings_def gen_overprivileged_instance_profile_findings_def
      gen_overprivileged_stack_findings_def gen_os_lpe_finding_def gen_circular_access_finding_def
      user_alice_def make_principal_def mfa_actions_affected_users_def
      service_assumable_admin_roles_def os_lpe_affected_def find_cycle_def find_cycle_loop.simps
      find_cycle_step_def get_outbound_edges_def)

text \<open>
  Claim C4, as \<^verbatim>\<open>gen_report\<close> is written. If the metadata of the graph has no account
  identifier, \<^verbatim>\<open>gen_report\<close> produces no report; it has by then invoked
  \<^verbatim>\<open>gen_privesc_findings\<close>; and when no rule raises, all eight rules have been invoked,
  in the order of \<^verbatim>\<open>gen_all_findings\<close>, before \<^verbatim>\<open>KeyError\<close> is raised for the missing
  key.
\<close>

theorem gen_report_without_account_id:
  assumes "metadata g ''account_id'' = None"
  shows "(\<forall>r. fst (gen_report env g tr) \<noteq> Inr r)
    \<and> take (Suc (length tr)) (snd (gen_report env g tr)) = tr @ [''gen_privesc_findings'']
    \<and> (\<forall>fs. fst (gen_all_findings env g tr) = Inr fs \<longrightarrow>
          gen_report env g tr =
            (Inl KeyError, tr @
              [''gen_privesc_findings'', ''gen_admin_users_without_mfa_finding'',
               ''gen_mfa_actions_findings'', ''gen_overprivileged_function_findings'',
               ''gen_overprivileged_instance_profile_findings'',
               ''gen_overprivileged_stack_findings'', ''gen_os_lpe_finding'',
               ''gen_circular_access_finding'']))"
proof -
  obtain res tr' where run: "gen_all_findings env g tr = (res, tr')"
    by (cases "gen_all_findings env g tr")
  have rep: "gen_report env g tr = (case res of Inl e \<Rightarrow> (Inl e, tr') | Inr fs \<Rightarrow> (Inl KeyError, tr'))"
    using assms run by (simp add: gen_report_def and_then_def split: sum.splits)
  have "\<forall>r. fst (gen_report env g tr) \<noteq> Inr r"
    unfolding rep by (simp split: sum.splits)
  moreover have "snd (gen_report env g tr) = snd (gen_all_findings env g tr)"
    unfolding rep run by (simp split: sum.splits)
  then have "take (Suc (length tr)) (snd (gen_report env g tr)) = tr @ [''gen_privesc_findings'']"
    by (simp only: gen_all_findings_trace_first)
  moreover have "\<forall>fs. fst (gen_all_findings env g tr) = Inr fs \<longrightarrow>
          gen_report env g tr =
            (Inl KeyError, tr @
              [''gen_privesc_findings'', ''gen_admin_users_without_mfa_finding'',
               ''gen_mfa_actions_findings'', ''gen_overprivileged_function_findings'',
               ''gen_overprivileged_instance_profile_findings'',
               ''gen_overprivileged_stack_findings'', ''gen_os_lpe_finding'',
               ''gen_circular_access_finding''])"
  proof (intro allI impI)
    fix fs assume ok: "fst (gen_all_findings env g tr) = Inr fs"
    from gen_all_findings_trace_complete [OF ok] run ok
    show "gen_report env g tr =
            (Inl KeyError, tr @
              [''gen_privesc_findings'', ''gen_admin_users_without_mfa_finding'',
               ''gen_mfa_actions_findings'', ''gen_overprivileged_function_findings'',
               ''gen_overprivileged_instance_profile_findings'',
               ''gen_overprivileged_stack_findings'', ''gen_os_lpe_finding'',
               ''gen_circular_access_finding''])"
      unfolding rep by simp
  qed
  ultimately show ?thesis by blast
qed

theorem gen_report_without_account_id_witness:
  "gen_report escalation_env (mixed_graph\<lparr>metadata := Map.empty\<rparr>) [] =
     (Inl KeyError,
      [''gen_privesc_findings'', ''gen_admin_users_without_mfa_finding'',
       ''gen_mfa_actions_findings'', ''gen_overprivileged_function_findings'',
       ''gen_overprivileged_instance_profile_findings'', ''gen_overprivileged_stack_findings'',
       ''gen_os_lpe_finding'', ''gen_circular_access_finding''])
   \<and> length (projr (fst (gen_all_findings escalation_env (mixed_graph\<lparr>metadata := Map.empty\<rparr>) [])))
       = 2"
proof -
  let ?g = "mixed_graph\<lparr>metadata := Map.empty\<rparr>"
  have h: "metadata ?g ''account_id'' = None" by simp
  have ok: "\<exists>a b. fst (gen_all_findings escalation_env ?g []) = Inr [a, b]"
    by (simp add: gen_all_findings_result rule_defs escalation_env_def sample_env_def
        arn_field_def mixed_graph_defs find_cycle_def find_cycle_loop.simps find_cycle_step_def
        get_outbound_edges_def)
  then obtain a b where ab: "fst (gen_all_findings escalation_env ?g []) = Inr [a, b]"
    by blast
  with gen_report_without_account_id [OF h, of escalation_env "[]"] show ?thesis
    by simp
qed

end
